theory Spec2Isabelle
  imports Complex_Main
begin

section \<open>Tensors, scalars and errors\<close>

text \<open>
  The program is \<^verbatim>\<open>src/celeba/train_wgan_gp.py\<close>. Its tensors are modelled by their
  mathematical content: an entry is an exact \<^typ>\<open>real\<close>, a sample (one image) is the
  list of its entries, flattened, and a batch is the list of its samples along dimension
  0. Rounding and overflow of the 32-bit floats are the matter of a second embedding of
  \<^verbatim>\<open>gradient_penalty\<close>, in the section on binary32 arithmetic.

  A 0-dimensional result is a \<open>scalar\<close>. The only non-number kept is the one the code
  can produce without any rounding: \<^verbatim>\<open>torch.mean\<close> of a tensor with no element is
  \<^verbatim>\<open>nan\<close>, written \<open>None\<close>, and arithmetic on it gives \<^verbatim>\<open>nan\<close> again.

  The elementwise operations are modelled for operands of one common shape
  (\<open>same_shape\<close>); broadcasting between a real and a fake batch of different shapes is
  not modelled, and the theorems about the entries of such a pair assume \<open>same_shape\<close>.
\<close>

type_synonym sample = "real list"
type_synonym batch = "sample list"
type_synonym scalar = "real option"

datatype error = RuntimeError | UnboundLocalError

datatype device = Cuda | Mps | Cpu

definition s_neg :: "scalar \<Rightarrow> scalar" where
  "s_neg a = map_option uminus a"

definition s_add :: "scalar \<Rightarrow> scalar \<Rightarrow> scalar" where
  "s_add a b = (case a of None \<Rightarrow> None | Some x \<Rightarrow> (case b of None \<Rightarrow> None | Some y \<Rightarrow> Some (x + y)))"

definition s_sub :: "scalar \<Rightarrow> scalar \<Rightarrow> scalar" where
  "s_sub a b = (case a of None \<Rightarrow> None | Some x \<Rightarrow> (case b of None \<Rightarrow> None | Some y \<Rightarrow> Some (x - y)))"

definition s_mul :: "real \<Rightarrow> scalar \<Rightarrow> scalar" where
  "s_mul k a = map_option (\<lambda>x. k * x) a"

text \<open>\<^verbatim>\<open>Tensor.mean()\<close> over all entries: the sum divided by the count, \<^verbatim>\<open>nan\<close> for no entry.\<close>

definition mean_t :: "real list \<Rightarrow> scalar" where
  "mean_t xs = (if xs = [] then None else Some (sum_list xs / real (length xs)))"

text \<open>\<^verbatim>\<open>row.norm(2)\<close>: the Euclidean norm of one flattened gradient row.\<close>

definition norm2 :: "sample \<Rightarrow> real" where
  "norm2 g = sqrt (sum_list (map (\<lambda>v. v\<^sup>2) g))"

text \<open>\<^verbatim>\<open>.clamp(min=m)\<close> on one entry.\<close>

definition clamp_min :: "real \<Rightarrow> real \<Rightarrow> real" where
  "clamp_min m v = (if v < m then m else v)"

definition same_shape :: "batch \<Rightarrow> batch \<Rightarrow> bool" where
  "same_shape xs ys = list_all2 (\<lambda>x y. length x = length y) xs ys"

section \<open>Device selection\<close>

text \<open>
  \<^verbatim>\<open>get_device\<close> (lines 36-42). The two environment queries
  \<^verbatim>\<open>torch.cuda.is_available()\<close> and \<^verbatim>\<open>torch.backends.mps.is_available()\<close> are the
  arguments.
\<close>

definition get_device :: "bool \<Rightarrow> bool \<Rightarrow> device" where
  "get_device cuda_is_available mps_is_available =
     (if cuda_is_available then Cuda
      else if mps_is_available then Mps
      else Cpu)"

section \<open>The critic and the losses\<close>

text \<open>
  A critic \<open>D\<close> is used in two ways: it is called on a batch, and
  \<^verbatim>\<open>torch.autograd.grad(outputs=D(x), inputs=x, grad_outputs=ones_like(D(x)))\<close>
  differentiates the sum of its outputs with respect to the batch. Automatic
  differentiation belongs to the framework, so both are fields of the critic:
  \<open>forward D x\<close> is \<^verbatim>\<open>D(x)\<close>, flattened, and \<open>input_grad D x i\<close> is row \<open>i\<close> of that
  gradient, flattened (the gradient has the shape of \<open>x\<close>, hence one row per sample).
\<close>

record critic =
  forward :: "batch \<Rightarrow> real list"
  input_grad :: "batch \<Rightarrow> nat \<Rightarrow> sample"

text \<open>
  Line 56: \<^verbatim>\<open>alpha * real_samples + ((1 - alpha) * fake_samples)\<close>, where
  \<^verbatim>\<open>alpha\<close> has shape \<^verbatim>\<open>(batch_size, 1, 1, 1)\<close>: one coefficient per sample,
  broadcast over the entries of that sample.
\<close>

definition interpolates :: "real list \<Rightarrow> batch \<Rightarrow> batch \<Rightarrow> batch" where
  "interpolates alpha real_samples fake_samples =
     map (\<lambda>(a, x, y). map (\<lambda>(r, f). a * r + (1 - a) * f) (zip x y))
       (zip alpha (zip real_samples fake_samples))"

text \<open>
  \<^verbatim>\<open>gradient_penalty\<close> (lines 45-76). \<open>rand i\<close> is the \<open>i\<close>-th number that
  \<^verbatim>\<open>torch.rand((batch_size, 1, 1, 1))\<close> draws in this call. The device only places the
  tensors. \<^verbatim>\<open>gradients.view(gradients.size(0), -1)\<close> raises \<^verbatim>\<open>RuntimeError\<close> when
  \<^verbatim>\<open>gradients.size(0)\<close> is 0: a tensor of 0 elements cannot be viewed as \<^verbatim>\<open>[0, -1]\<close>,
  the inferred dimension being ambiguous.
\<close>

definition gradient_penalty ::
  "critic \<Rightarrow> batch \<Rightarrow> batch \<Rightarrow> device \<Rightarrow> (nat \<Rightarrow> real) \<Rightarrow> real \<Rightarrow> error + scalar" where
  "gradient_penalty D real_samples fake_samples dev rand factor =
     (let batch_size = length real_samples;
          alpha = map rand [0..<batch_size];
          x = interpolates alpha real_samples fake_samples;
          gradients = map (input_grad D x) [0..<length x]
      in if gradients = [] then Inl RuntimeError
         else
           (let gradient_norms = map (\<lambda>g. clamp_min (1 / 1000000) (norm2 g)) gradients;
                gp = mean_t (map (\<lambda>n. (n - 1)\<^sup>2) gradient_norms)
            in Inr (s_mul factor gp)))"

text \<open>\<^verbatim>\<open>critic_loss\<close> (lines 79-84); an exception of \<^verbatim>\<open>gradient_penalty\<close> propagates.\<close>

definition critic_loss ::
  "critic \<Rightarrow> batch \<Rightarrow> batch \<Rightarrow> device \<Rightarrow> (nat \<Rightarrow> real) \<Rightarrow> real \<Rightarrow> error + scalar" where
  "critic_loss D real_samples fake_samples dev rand factor =
     (let loss = s_sub (mean_t (forward D fake_samples)) (mean_t (forward D real_samples))
      in case gradient_penalty D real_samples fake_samples dev rand factor of
           Inl e \<Rightarrow> Inl e
         | Inr gp \<Rightarrow> Inr (s_add loss gp))"

text \<open>\<^verbatim>\<open>generator_loss\<close> (lines 87-90).\<close>

definition generator_loss :: "critic \<Rightarrow> batch \<Rightarrow> scalar" where
  "generator_loss D fake_samples =
     (let loss = s_neg (mean_t (forward D fake_samples)) in loss)"

text \<open>
  For evaluation: \<open>half_draws\<close> is a random generator that always draws one half, and
  \<open>first_entry_critic\<close> scores a sample by its first entry; the gradient of the summed
  scores is 1 at that entry and 0 elsewhere.
\<close>

definition half_draws :: "nat \<Rightarrow> real" where
  "half_draws i = 1 / 2"

definition first_entry_critic :: critic where
  "first_entry_critic =
     \<lparr>forward = map (\<lambda>s. case s of [] \<Rightarrow> 0 | v # _ \<Rightarrow> v),
      input_grad = (\<lambda>x i. case x ! i of [] \<Rightarrow> [] | _ # vs \<Rightarrow> 1 # map (\<lambda>_. 0) vs)\<rparr>"

section \<open>Binary32 arithmetic\<close>

text \<open>
  \<^verbatim>\<open>gradient_penalty\<close> converts both batches with \<^verbatim>\<open>.float()\<close> (lines 46-47), so every
  tensor it computes holds IEEE 754 binary32 numbers. Where a property depends on rounding,
  on overflow, on \<^verbatim>\<open>nan\<close> or on a failure of the differentiation, the exact reals above are
  too coarse; this section embeds lines 45-76 a second time, over binary32, and the
  properties of that kind are stated of \<open>gradient_penalty32\<close>.

  A value is a finite real, an infinity or \<^verbatim>\<open>nan\<close>; \<open>Fin x\<close> is a binary32 number when
  \<open>rnd x = Fin x\<close>. The two zeros are not distinguished.
\<close>

datatype f32 = Fin real | PInf | NInf | NaN

text \<open>
  Rounding to nearest, ties to even. The exponent of \<open>x\<close> is \<open>\<lfloor>log 2 \<bar>x\<bar>\<rfloor>\<close>, and at
  least -126 (below are the subnormal numbers); a unit in the last place is 2 to the
  exponent minus 23; a result of magnitude \<open>2 ^ 128\<close> or more overflows to an infinity.
\<close>

definition round_half_even :: "real \<Rightarrow> int" where
  "round_half_even q =
     (let n = \<lfloor>q\<rfloor>; d = q - of_int n
      in if d < 1 / 2 then n
         else if 1 / 2 < d then n + 1
         else if even n then n else n + 1)"

definition expo :: "real \<Rightarrow> int" where
  "expo x = max \<lfloor>log 2 \<bar>x\<bar>\<rfloor> (- 126)"

definition ulp :: "real \<Rightarrow> real" where
  "ulp x = 2 powr (of_int (expo x) - 23)"

definition nearest :: "real \<Rightarrow> real" where
  "nearest x = of_int (round_half_even (x / ulp x)) * ulp x"

definition rnd :: "real \<Rightarrow> f32" where
  "rnd x =
     (if x = 0 then Fin 0
      else if 2 ^ 128 \<le> \<bar>nearest x\<bar> then (if 0 < x then PInf else NInf)
      else Fin (nearest x))"

text \<open>
  The arithmetic of IEEE 754: an operation on finite operands rounds the exact result
  once; \<open>\<infinity> - \<infinity>\<close> and \<open>0 * \<infinity>\<close> are \<^verbatim>\<open>nan\<close>, and \<^verbatim>\<open>nan\<close> is absorbing.
\<close>

definition f_neg :: "f32 \<Rightarrow> f32" where
  "f_neg a = (case a of Fin x \<Rightarrow> Fin (- x) | PInf \<Rightarrow> NInf | NInf \<Rightarrow> PInf | NaN \<Rightarrow> NaN)"

definition f_add :: "f32 \<Rightarrow> f32 \<Rightarrow> f32" where
  "f_add a b =
     (case (a, b) of
        (NaN, _) \<Rightarrow> NaN
      | (_, NaN) \<Rightarrow> NaN
      | (Fin x, Fin y) \<Rightarrow> rnd (x + y)
      | (PInf, NInf) \<Rightarrow> NaN
      | (NInf, PInf) \<Rightarrow> NaN
      | (PInf, _) \<Rightarrow> PInf
      | (_, PInf) \<Rightarrow> PInf
      | (NInf, _) \<Rightarrow> NInf
      | (_, NInf) \<Rightarrow> NInf)"

definition f_sub :: "f32 \<Rightarrow> f32 \<Rightarrow> f32" where
  "f_sub a b = f_add a (f_neg b)"

definition f_sgn_inf :: "real \<Rightarrow> f32" where
  "f_sgn_inf x = (if x = 0 then NaN else if 0 < x then PInf else NInf)"

definition f_mul :: "f32 \<Rightarrow> f32 \<Rightarrow> f32" where
  "f_mul a b =
     (case (a, b) of
        (NaN, _) \<Rightarrow> NaN
      | (_, NaN) \<Rightarrow> NaN
      | (Fin x, Fin y) \<Rightarrow> rnd (x * y)
      | (Fin x, PInf) \<Rightarrow> f_sgn_inf x
      | (Fin x, NInf) \<Rightarrow> f_sgn_inf (- x)
      | (PInf, Fin y) \<Rightarrow> f_sgn_inf y
      | (NInf, Fin y) \<Rightarrow> f_sgn_inf (- y)
      | (PInf, PInf) \<Rightarrow> PInf
      | (NInf, NInf) \<Rightarrow> PInf
      | (PInf, NInf) \<Rightarrow> NInf
      | (NInf, PInf) \<Rightarrow> NInf)"

text \<open>Lines 46-47: \<^verbatim>\<open>.float()\<close> on one entry.\<close>

definition float32 :: "f32 \<Rightarrow> f32" where
  "float32 v = (case v of Fin x \<Rightarrow> rnd x | _ \<Rightarrow> v)"

text \<open>
  Line 56 over binary32: \<^verbatim>\<open>1 - alpha\<close>, the two products and the sum are each rounded.
  As above, the two batches are taken of one shape (\<open>same_shape32\<close>).
\<close>

definition interpolates32 :: "f32 list \<Rightarrow> f32 list list \<Rightarrow> f32 list list \<Rightarrow> f32 list list" where
  "interpolates32 alpha real_samples fake_samples =
     map (\<lambda>(a, x, y). map (\<lambda>(r, f). f_add (f_mul a r) (f_mul (f_sub (Fin 1) a) f)) (zip x y))
       (zip alpha (zip real_samples fake_samples))"

definition same_shape32 :: "f32 list list \<Rightarrow> f32 list list \<Rightarrow> bool" where
  "same_shape32 xs ys = list_all2 (\<lambda>x y. length x = length y) xs ys"

text \<open>
  Line 74: \<^verbatim>\<open>row.norm(2)\<close> and \<^verbatim>\<open>.clamp(min=1e-6)\<close>; line 75: \<^verbatim>\<open>.mean()\<close>. The two
  reductions are kernels of the framework, and the order in which they accumulate is not
  fixed by the source: on finite entries they are embedded as one rounding of the exact
  result. \<^verbatim>\<open>nan\<close> wins over every other entry, an infinite entry makes the norm infinite,
  and the mean of no entry is \<^verbatim>\<open>nan\<close>. \<^verbatim>\<open>clamp\<close> keeps \<^verbatim>\<open>nan\<close>.
\<close>

definition fin_vals :: "f32 list \<Rightarrow> real list" where
  "fin_vals vs = map (\<lambda>v. case v of Fin x \<Rightarrow> x | _ \<Rightarrow> 0) vs"

definition norm32 :: "f32 list \<Rightarrow> f32" where
  "norm32 row =
     (if NaN \<in> set row then NaN
      else if PInf \<in> set row \<or> NInf \<in> set row then PInf
      else rnd (sqrt (sum_list (map (\<lambda>x. x\<^sup>2) (fin_vals row)))))"

definition clamp_min32 :: "f32 \<Rightarrow> f32 \<Rightarrow> f32" where
  "clamp_min32 m v =
     (case v of
        NaN \<Rightarrow> NaN
      | PInf \<Rightarrow> PInf
      | NInf \<Rightarrow> m
      | Fin x \<Rightarrow> (case m of Fin y \<Rightarrow> (if x < y then Fin y else Fin x) | _ \<Rightarrow> m))"

definition mean32 :: "f32 list \<Rightarrow> f32" where
  "mean32 vs =
     (if vs = [] \<or> NaN \<in> set vs \<or> (PInf \<in> set vs \<and> NInf \<in> set vs) then NaN
      else if PInf \<in> set vs then PInf
      else if NInf \<in> set vs then NInf
      else rnd (sum_list (fin_vals vs) / real (length vs)))"

text \<open>
  Lines 58-68. Calling the critic and differentiating its output can fail:
  \<^verbatim>\<open>torch.autograd.grad\<close> raises \<^verbatim>\<open>RuntimeError\<close> when the output of \<^verbatim>\<open>D\<close> does not
  depend on the interpolated batch through differentiable operations (it has no
  \<^verbatim>\<open>grad_fn\<close>), and \<^verbatim>\<open>D\<close> itself may raise. Here a critic maps the interpolated batch to
  the exception, or to the rows of the gradient: \<open>g i\<close> is row \<open>i\<close>, flattened.
\<close>

type_synonym critic32 = "f32 list list \<Rightarrow> error + (nat \<Rightarrow> f32 list)"

text \<open>
  \<^verbatim>\<open>gradient_penalty\<close> (lines 45-76) over binary32. \<open>rand i\<close> is the \<open>i\<close>-th number that
  \<^verbatim>\<open>torch.rand\<close> draws. The device only places the tensors, and both batches are taken
  to lie on it. The factor is a Python number; the product with the 0-dimensional
  binary32 tensor is computed in binary32. As in \<open>gradient_penalty\<close>, viewing a gradient
  of 0 rows as \<^verbatim>\<open>[0, -1]\<close> raises \<^verbatim>\<open>RuntimeError\<close>.
\<close>

definition gradient_penalty32 ::
  "critic32 \<Rightarrow> f32 list list \<Rightarrow> f32 list list \<Rightarrow> device \<Rightarrow> (nat \<Rightarrow> real) \<Rightarrow> real \<Rightarrow> error + f32" where
  "gradient_penalty32 D real_samples fake_samples dev rand factor =
     (let real32 = map (map float32) real_samples;
          fake32 = map (map float32) fake_samples;
          batch_size = length real32;
          alpha = map (\<lambda>i. Fin (rand i)) [0..<batch_size];
          x = interpolates32 alpha real32 fake32
      in case D x of
           Inl e \<Rightarrow> Inl e
         | Inr g \<Rightarrow>
             (let gradients = map g [0..<length x]
              in if gradients = [] then Inl RuntimeError
                 else
                   (let gradient_norms =
                          map (\<lambda>row. clamp_min32 (rnd (1 / 1000000)) (norm32 row)) gradients;
                        gp = mean32 (map (\<lambda>n. f_mul (f_sub n (Fin 1)) (f_sub n (Fin 1)))
                                      gradient_norms)
                    in Inr (f_mul (rnd factor) gp))))"

text \<open>
  What the sign of a binary32 result can be said to be: \<open>nonneg_or_nan\<close> excludes the
  negative numbers and \<open>-\<infinity>\<close>; \<open>representable\<close> holds of the values that rounding
  leaves unchanged.
\<close>

definition nonneg_or_nan :: "f32 \<Rightarrow> bool" where
  "nonneg_or_nan v = (case v of Fin y \<Rightarrow> 0 \<le> y | PInf \<Rightarrow> True | NInf \<Rightarrow> False | NaN \<Rightarrow> True)"

definition representable :: "f32 \<Rightarrow> bool" where
  "representable v = (case v of Fin y \<Rightarrow> rnd y = Fin y | _ \<Rightarrow> True)"

text \<open>
  Four critics for evaluation. \<open>sum_critic32\<close> scores a sample by the sum of its entries:
  every entry of the gradient is 1. \<open>steep_critic32\<close> is \<open>2 ^ 70\<close> times that.
  \<open>nan_critic32\<close> has a gradient of \<^verbatim>\<open>nan\<close>, as \<^verbatim>\<open>(x ** 2).sqrt().sum()\<close> has at 0.
  \<open>detached_critic32\<close> returns scores that do not depend on its input, as a constant
  does: differentiating them raises.
\<close>

definition sum_critic32 :: critic32 where
  "sum_critic32 x = Inr (\<lambda>i. map (\<lambda>_. Fin 1) (x ! i))"

definition steep_critic32 :: critic32 where
  "steep_critic32 x = Inr (\<lambda>i. map (\<lambda>_. Fin (2 ^ 70)) (x ! i))"

definition nan_critic32 :: critic32 where
  "nan_critic32 x = Inr (\<lambda>i. map (\<lambda>_. NaN) (x ! i))"

definition detached_critic32 :: critic32 where
  "detached_critic32 x = Inl RuntimeError"

section \<open>The training loop\<close>

text \<open>
  \<^verbatim>\<open>train\<close> (lines 93-188) is modelled by its control flow and its effects. The
  tensors, the two networks and the optimizers' arithmetic are abstract: each call into
  the framework is an event appended to a trace, and such a call is taken to return. The
  exceptions kept are the ones the function's own text produces: reading the local
  \<^verbatim>\<open>loss_D\<close> or \<^verbatim>\<open>loss_G\<close> before any assignment (\<^verbatim>\<open>UnboundLocalError\<close>), and
  the \<^verbatim>\<open>RuntimeError\<close> of \<open>critic_loss\<close> on a batch of size 0. An uncaught exception
  ends the run; the state at that point is kept.
\<close>

datatype net = Net_G | Net_D

datatype grad_mode = Tracked | Detached | No_Grad

text \<open>
  Every \<^verbatim>\<open>torch.randn\<close> call advances the random generator; the calls are numbered, and
  a tensor computed from a noise batch carries the number of its draw.
\<close>

datatype event =
    Summary_Writer string
  | To_Device net device
  | Adam net real "real \<times> real"
  | Zero_Grad net
  | Randn nat nat
  | Generate nat grad_mode
  | Critic_Loss nat real
  | Generator_Loss nat
  | Backward net
  | Optimizer_Step net
  | Add_Scalar string nat nat
  | Add_Images int
  | Torch_Save net int string
  | Log_Saved string string
  | Log_Epoch int nat nat
  | Writer_Close

text \<open>\<^verbatim>\<open>epochs: Union[int, Literal["inf"]]\<close>.\<close>

datatype epochs_arg = Epochs int | Inf_epochs

record train_args =
  loader :: "nat list"
  epochs :: epochs_arg
  n_critic :: int
  lr :: real
  betas :: "real \<times> real"
  factor :: real

text \<open>
  The loader is the list of its batches, a batch being given by \<^verbatim>\<open>real_img.size(0)\<close>;
  it yields the same batches in every epoch. The environment is what \<^verbatim>\<open>train\<close> reads
  from outside: the clock, formatted by \<^verbatim>\<open>strftime("%Y%m%d%H%M%S")\<close>, and the two
  availability flags of \<open>get_device\<close>.
\<close>

record env =
  now :: string
  cuda_is_available :: bool
  mps_is_available :: bool

text \<open>
  The locals that change: \<open>draws\<close> counts the \<^verbatim>\<open>torch.randn\<close> calls made,
  \<open>loss_D\<close> and \<open>loss_G\<close> are unbound (\<open>None\<close>) or hold the loss computed from the draw
  of that number.
\<close>

record train_state =
  draws :: nat
  writer_step :: nat
  loss_D :: "nat option"
  loss_G :: "nat option"
  trace :: "event list"

type_synonym outcome = "error option \<times> train_state"

definition emit :: "event list \<Rightarrow> train_state \<Rightarrow> train_state" where
  "emit es s = s\<lparr>trace := trace s @ es\<rparr>"

definition gw_path :: "string \<Rightarrow> string" where
  "gw_path timestamp = ''./snapshots/gw_'' @ timestamp @ ''.pth''"

definition dw_path :: "string \<Rightarrow> string" where
  "dw_path timestamp = ''./snapshots/dw_'' @ timestamp @ ''.pth''"

text \<open>Lines 139-152: one iteration of \<^verbatim>\<open>for _ in range(n_critic)\<close>.\<close>

definition critic_update :: "train_args \<Rightarrow> nat \<Rightarrow> train_state \<Rightarrow> outcome" where
  "critic_update a batch_size s =
     (let k = draws s;
          s1 = emit [Zero_Grad Net_D, Randn k batch_size, Generate k Detached]
                 (s\<lparr>draws := Suc k\<rparr>)
      in if batch_size = 0 then (Some RuntimeError, s1)
         else (None, emit [Critic_Loss k (factor a), Backward Net_D, Optimizer_Step Net_D]
                       (s1\<lparr>loss_D := Some k\<rparr>)))"

text \<open>Line 138: the loop, with the number of iterations that remain.\<close>

fun critic_loop :: "train_args \<Rightarrow> nat \<Rightarrow> nat \<Rightarrow> train_state \<Rightarrow> outcome" where
  "critic_loop a batch_size 0 s = (None, s)"
| "critic_loop a batch_size (Suc n) s =
     (case critic_update a batch_size s of
        (Some e, s') \<Rightarrow> (Some e, s')
      | (None, s') \<Rightarrow> critic_loop a batch_size n s')"

text \<open>Lines 155-160.\<close>

definition generator_update :: "nat \<Rightarrow> train_state \<Rightarrow> train_state" where
  "generator_update batch_size s =
     (let k = draws s
      in emit [Zero_Grad Net_G, Randn k batch_size, Generate k Tracked, Generator_Loss k,
               Backward Net_G, Optimizer_Step Net_G]
           (s\<lparr>draws := Suc k, loss_G := Some k\<rparr>))"

text \<open>Lines 163-165.\<close>

definition log_losses :: "train_state \<Rightarrow> outcome" where
  "log_losses s =
     (case loss_D s of
        None \<Rightarrow> (Some UnboundLocalError, s)
      | Some d \<Rightarrow>
          (case loss_G s of
             None \<Rightarrow> (Some UnboundLocalError, s)
           | Some g \<Rightarrow>
               (None, emit [Add_Scalar ''Loss/Critic'' d (writer_step s),
                            Add_Scalar ''Loss/Generator'' g (writer_step s)]
                        (s\<lparr>writer_step := writer_step s + 1\<rparr>))))"

text \<open>Lines 132-165: the body of the loop over the loader; \<^verbatim>\<open>range\<close> of a negative number is empty.\<close>

definition train_batch :: "train_args \<Rightarrow> nat \<Rightarrow> train_state \<Rightarrow> outcome" where
  "train_batch a batch_size s =
     (case critic_loop a batch_size (nat (n_critic a)) s of
        (Some e, s') \<Rightarrow> (Some e, s')
      | (None, s') \<Rightarrow> log_losses (generator_update batch_size s'))"

text \<open>Line 131: the loop over the loader.\<close>

fun batch_loop :: "train_args \<Rightarrow> nat list \<Rightarrow> train_state \<Rightarrow> outcome" where
  "batch_loop a [] s = (None, s)"
| "batch_loop a (batch_size # rest) s =
     (case train_batch a batch_size s of
        (Some e, s') \<Rightarrow> (Some e, s')
      | (None, s') \<Rightarrow> batch_loop a rest s')"

text \<open>
  Lines 167-185: the sample images, the two checkpoints and the two log lines. A
  checkpoint event holds the network, the epoch whose parameters are saved and the path.
\<close>

definition epoch_end :: "string \<Rightarrow> int \<Rightarrow> train_state \<Rightarrow> outcome" where
  "epoch_end timestamp epoch s =
     (let k = draws s;
          s1 = emit [Randn k 8, Generate k No_Grad, Add_Images epoch,
                     Torch_Save Net_G epoch (gw_path timestamp),
                     Torch_Save Net_D epoch (dw_path timestamp),
                     Log_Saved (''snapshots/gw_'' @ timestamp @ ''.pth'')
                               (''snapshots/dw_'' @ timestamp @ ''.pth'')]
                 (s\<lparr>draws := Suc k\<rparr>)
      in case loss_D s1 of
           None \<Rightarrow> (Some UnboundLocalError, s1)
         | Some d \<Rightarrow>
             (case loss_G s1 of
                None \<Rightarrow> (Some UnboundLocalError, s1)
              | Some g \<Rightarrow> (None, emit [Log_Epoch (epoch + 1) d g] s1)))"

text \<open>Lines 131-185: the body of the loop over the epochs.\<close>

definition epoch_body :: "train_args \<Rightarrow> string \<Rightarrow> int \<Rightarrow> train_state \<Rightarrow> outcome" where
  "epoch_body a timestamp epoch s =
     (case batch_loop a (loader a) s of
        (Some e, s') \<Rightarrow> (Some e, s')
      | (None, s') \<Rightarrow> epoch_end timestamp epoch s')"

text \<open>
  Lines 124-127: the iterator over the epochs, \<^verbatim>\<open>range(epochs)\<close> with its next value
  and its bound, or \<^verbatim>\<open>itertools.count()\<close> with its next value.
\<close>

datatype epochs_range = Range_it int int | Count_it int

definition epochs_range_of :: "epochs_arg \<Rightarrow> epochs_range" where
  "epochs_range_of e = (case e of Inf_epochs \<Rightarrow> Count_it 0 | Epochs n \<Rightarrow> Range_it 0 n)"

fun next_epoch :: "epochs_range \<Rightarrow> (int \<times> epochs_range) option" where
  "next_epoch (Range_it i n) = (if i < n then Some (i, Range_it (i + 1) n) else None)"
| "next_epoch (Count_it i) = Some (i, Count_it (i + 1))"

text \<open>
  Line 130: the loop over the epochs. It need not end, so its result is optional:
  \<open>None\<close> is a run that goes on for ever.
\<close>

partial_function (option) epoch_loop ::
  "train_args \<Rightarrow> string \<Rightarrow> epochs_range \<Rightarrow> train_state \<Rightarrow> outcome option" where
  "epoch_loop a timestamp it s =
     (case next_epoch it of
        None \<Rightarrow> Some (None, s)
      | Some (epoch, it') \<Rightarrow>
          (case epoch_body a timestamp epoch s of
             (Some e, s') \<Rightarrow> Some (Some e, s')
           | (None, s') \<Rightarrow> epoch_loop a timestamp it' s'))"

text \<open>Lines 113-129: what \<^verbatim>\<open>train\<close> does before the loop.\<close>

definition before_loop :: "train_args \<Rightarrow> env \<Rightarrow> train_state" where
  "before_loop a e =
     (let timestamp = now e;
          dev = get_device (cuda_is_available e) (mps_is_available e)
      in \<lparr>draws = 0, writer_step = 0, loss_D = None, loss_G = None,
          trace = [Summary_Writer (''runs/wgan_wc_'' @ timestamp),
                   To_Device Net_G dev, To_Device Net_D dev,
                   Adam Net_G (lr a) (betas a), Adam Net_D (lr a) (betas a)]\<rparr>)"

definition train :: "train_args \<Rightarrow> env \<Rightarrow> outcome option" where
  "train a e =
     (case epoch_loop a (now e) (epochs_range_of (epochs a)) (before_loop a e) of
        None \<Rightarrow> None
      | Some (Some err, s) \<Rightarrow> Some (Some err, s)
      | Some (None, s) \<Rightarrow> Some (None, emit [Writer_Close] s))"

text \<open>
  The state after at most \<open>k\<close> turns of the loop over the epochs (line 130): the loop
  unrolled \<open>k\<close> times. It is defined for every run, also for one that goes on for ever.
\<close>

fun epochs_prefix ::
  "nat \<Rightarrow> train_args \<Rightarrow> string \<Rightarrow> epochs_range \<Rightarrow> train_state \<Rightarrow> train_state" where
  "epochs_prefix 0 a timestamp it s = s"
| "epochs_prefix (Suc k) a timestamp it s =
     (case next_epoch it of
        None \<Rightarrow> s
      | Some (epoch, it') \<Rightarrow>
          (case epoch_body a timestamp epoch s of
             (Some e, s') \<Rightarrow> s'
           | (None, s') \<Rightarrow> epochs_prefix k a timestamp it' s'))"

text \<open>
  What a trace says: the checkpoints written, in order; the files they leave, a later
  write to a path replacing the earlier one; and the epochs run to their last line.
\<close>

fun saves :: "event list \<Rightarrow> (string \<times> net \<times> int) list" where
  "saves [] = []"
| "saves (Torch_Save n epoch path # es) = (path, n, epoch) # saves es"
| "saves (_ # es) = saves es"

definition checkpoint_files :: "event list \<Rightarrow> (string \<rightharpoonup> net \<times> int)" where
  "checkpoint_files es = map_of (rev (saves es))"

fun epochs_completed :: "event list \<Rightarrow> nat" where
  "epochs_completed [] = 0"
| "epochs_completed (Log_Epoch _ _ _ # es) = Suc (epochs_completed es)"
| "epochs_completed (_ # es) = epochs_completed es"

text \<open>
  The states of \<^verbatim>\<open>train\<close> between two batches: the one before the loop, and the
  ones after a batch of the loader, or the end of an epoch, that raised nothing.
\<close>

inductive between_batches :: "train_args \<Rightarrow> env \<Rightarrow> train_state \<Rightarrow> bool"
  for a :: train_args and e :: env where
  start: "between_batches a e (before_loop a e)"
| batch: "between_batches a e s \<Longrightarrow> batch_size \<in> set (loader a) \<Longrightarrow>
          train_batch a batch_size s = (None, s') \<Longrightarrow> between_batches a e s'"
| epoch: "between_batches a e s \<Longrightarrow> epoch_end (now e) epoch s = (None, s') \<Longrightarrow>
          between_batches a e s'"

code_pred between_batches .

text \<open>
  The schedule C7 describes, as event lists: a critic step and a generator step on the
  noise batch of draw \<open>k\<close>.
\<close>

definition critic_step :: "real \<Rightarrow> nat \<Rightarrow> nat \<Rightarrow> event list" where
  "critic_step f batch_size k =
     [Zero_Grad Net_D, Randn k batch_size, Generate k Detached, Critic_Loss k f,
      Backward Net_D, Optimizer_Step Net_D]"

definition generator_step :: "nat \<Rightarrow> nat \<Rightarrow> event list" where
  "generator_step batch_size k =
     [Zero_Grad Net_G, Randn k batch_size, Generate k Tracked, Generator_Loss k,
      Backward Net_G, Optimizer_Step Net_G]"

text \<open>The numbers of the \<^verbatim>\<open>torch.randn\<close> draws in a trace, in order.\<close>

fun randn_draws :: "event list \<Rightarrow> nat list" where
  "randn_draws [] = []"
| "randn_draws (Randn k n # es) = k # randn_draws es"
| "randn_draws (_ # es) = randn_draws es"

text \<open>
  Arguments and an environment for evaluation: the defaults of \<^verbatim>\<open>train\<close> for
  \<^verbatim>\<open>lr\<close>, \<^verbatim>\<open>betas\<close> and \<^verbatim>\<open>factor\<close>, and a machine with neither accelerator.
\<close>

definition default_args :: "nat list \<Rightarrow> epochs_arg \<Rightarrow> int \<Rightarrow> train_args" where
  "default_args batches ep n =
     \<lparr>loader = batches, epochs = ep, n_critic = n,
      lr = 5 / 100000, betas = (1 / 2, 999 / 1000), factor = 10\<rparr>"

definition cpu_env :: env where
  "cpu_env = \<lparr>now = ''20240102030405'', cuda_is_available = False, mps_is_available = False\<rparr>"

section \<open>Device selection: the property\<close>

text \<open>
  C6. \<open>get_device\<close> returns CUDA whenever CUDA is available; otherwise MPS whenever MPS is
  available; otherwise the CPU. Its value depends on the two availability flags alone.
\<close>

theorem get_device_priority:
  "get_device True mps = Cuda
   \<and> get_device False True = Mps
   \<and> get_device False False = Cpu"
  by (simp add: get_device_def)

section \<open>The losses: properties\<close>

text \<open>
  C2. \<open>generator_loss\<close> is the negated mean of the critic's scores on the fake batch: the
  negated sum of the scores over their count (\<^verbatim>\<open>nan\<close> when the critic returns no score).
\<close>

theorem generator_loss_neg_mean:
  "generator_loss D fake_samples = s_neg (mean_t (forward D fake_samples))
   \<and> generator_loss D fake_samples =
     (if forward D fake_samples = [] then None
      else Some (- (sum_list (forward D fake_samples) / real (length (forward D fake_samples)))))"
  by (simp add: generator_loss_def s_neg_def mean_t_def)


lemma nth_interpolates:
  assumes "i < length alpha" "i < length xs" "i < length ys"
  shows "interpolates alpha xs ys ! i =
           map (\<lambda>(r, f). alpha ! i * r + (1 - alpha ! i) * f) (zip (xs ! i) (ys ! i))"
  using assms by (simp add: interpolates_def)


lemma same_shape_nth: "same_shape xs ys \<Longrightarrow> i < length xs \<Longrightarrow> length (ys ! i) = length (xs ! i)"
  by (auto simp: same_shape_def dest: list_all2_nthD)


lemma convex_between:
  fixes a r f :: real
  assumes "0 \<le> a" "a \<le> 1"
  shows "min r f \<le> a * r + (1 - a) * f \<and> a * r + (1 - a) * f \<le> max r f"
proof (cases "r \<le> f")
  case True
  have "a * r + (1 - a) * f = r + (1 - a) * (f - r)" by (simp add: algebra_simps)
  moreover have "a * r + (1 - a) * f = f - a * (f - r)" by (simp add: algebra_simps)
  moreover have "0 \<le> (1 - a) * (f - r)" using assms True by simp
  moreover have "0 \<le> a * (f - r)" using assms True by simp
  ultimately show ?thesis using True by (simp add: min_def max_def) 
next
  case False
  have "a * r + (1 - a) * f = f + a * (r - f)" by (simp add: algebra_simps)
  moreover have "a * r + (1 - a) * f = r - (1 - a) * (r - f)" by (simp add: algebra_simps)
  moreover have "0 \<le> (1 - a) * (r - f)" using assms False by simp
  moreover have "0 \<le> a * (r - f)" using assms False by simp
  ultimately show ?thesis using False by (simp add: min_def max_def) 
qed





text \<open>
  C1. \<open>critic_loss\<close> is the mean critic score of the fake batch, minus the mean critic
  score of the real batch, plus \<open>gradient_penalty\<close> of the same arguments (an exception of
  the latter is the exception of both sides); the value is a scalar, and where all three
  terms are numbers it is the number \<open>mean - mean + penalty\<close>.
\<close>

theorem critic_loss_formula:
  "critic_loss D real_samples fake_samples dev rand fac =
     (case gradient_penalty D real_samples fake_samples dev rand fac of
        Inl e \<Rightarrow> Inl e
      | Inr gp \<Rightarrow>
          Inr (s_add (s_sub (mean_t (forward D fake_samples)) (mean_t (forward D real_samples))) gp))
   \<and> (\<forall>g. gradient_penalty D real_samples fake_samples dev rand fac = Inr (Some g) \<longrightarrow>
          forward D fake_samples \<noteq> [] \<longrightarrow> forward D real_samples \<noteq> [] \<longrightarrow>
          critic_loss D real_samples fake_samples dev rand fac =
            Inr (Some (sum_list (forward D fake_samples) / real (length (forward D fake_samples))
                     - sum_list (forward D real_samples) / real (length (forward D real_samples))
                     + g)))"
proof (intro conjI allI impI)
  show "critic_loss D real_samples fake_samples dev rand fac =
     (case gradient_penalty D real_samples fake_samples dev rand fac of
        Inl e \<Rightarrow> Inl e
      | Inr gp \<Rightarrow>
          Inr (s_add (s_sub (mean_t (forward D fake_samples)) (mean_t (forward D real_samples))) gp))"
    by (simp add: critic_loss_def Let_def)
next
  fix g
  assume "gradient_penalty D real_samples fake_samples dev rand fac = Inr (Some g)"
    and "forward D fake_samples \<noteq> []" and "forward D real_samples \<noteq> []"
  then show "critic_loss D real_samples fake_samples dev rand fac =
            Inr (Some (sum_list (forward D fake_samples) / real (length (forward D fake_samples))
                     - sum_list (forward D real_samples) / real (length (forward D real_samples))
                     + g))"
    by (simp add: critic_loss_def mean_t_def s_add_def s_sub_def)
qed



lemma first_entry_penalty:
  "gradient_penalty first_entry_critic [[1, 2]] [[3, 4]] Cpu half_draws 10 = Inr (Some 0)"
  by (simp add: gradient_penalty_def interpolates_def first_entry_critic_def norm2_def
      clamp_min_def mean_t_def s_mul_def)

theorem critic_loss_formula_witness:
  "gradient_penalty first_entry_critic [[1, 2]] [[3, 4]] Cpu half_draws 10 = Inr (Some 0)
   \<and> forward first_entry_critic [[3, 4]] \<noteq> []
   \<and> forward first_entry_critic [[1, 2]] \<noteq> []
   \<and> critic_loss first_entry_critic [[1, 2]] [[3, 4]] Cpu half_draws 10 = Inr (Some 2)"
proof -
  have f: "forward first_entry_critic [[3, 4]] = [3]" and r: "forward first_entry_critic [[1, 2]] = [1]"
    by (simp_all add: first_entry_critic_def)
  show ?thesis
    using critic_loss_formula [of first_entry_critic "[[1, 2]]" "[[3, 4]]" Cpu half_draws 10]
      first_entry_penalty
    by (simp add: f r mean_t_def s_add_def s_sub_def)
qed



section \<open>Binary32 arithmetic: properties\<close>

lemma round_half_even_error: "\<bar>of_int (round_half_even q) - q\<bar> \<le> 1 / 2"
  unfolding round_half_even_def Let_def by (auto; linarith)

lemma round_half_even_of_int [simp]: "round_half_even (of_int n) = n"
  by (simp add: round_half_even_def)

lemma round_half_even_nonneg: "0 \<le> q \<Longrightarrow> 0 \<le> round_half_even q"
  unfolding round_half_even_def Let_def by (auto; linarith?)

lemma ulp_pos: "0 < ulp x"
  by (simp add: ulp_def)

lemma ulp_bound:
  assumes "x \<noteq> 0"
  shows "ulp x \<le> \<bar>x\<bar> / 2 ^ 23 + 1 / 2 ^ 149"
proof (cases "- 126 \<le> \<lfloor>log 2 \<bar>x\<bar>\<rfloor>")
  case True
  then have e: "expo x = \<lfloor>log 2 \<bar>x\<bar>\<rfloor>" by (simp add: expo_def)
  have "2 powr (of_int \<lfloor>log 2 \<bar>x\<bar>\<rfloor>) \<le> \<bar>x\<bar>"
    using floor_log_eq_powr_iff [of "\<bar>x\<bar>" 2 "\<lfloor>log 2 \<bar>x\<bar>\<rfloor>"] assms by simp
  moreover have "ulp x = 2 powr (of_int \<lfloor>log 2 \<bar>x\<bar>\<rfloor>) / 2 ^ 23"
    by (simp add: ulp_def e powr_diff)
  ultimately have "ulp x \<le> \<bar>x\<bar> / 2 ^ 23" by (simp add: divide_right_mono)
  moreover have "(0::real) \<le> 1 / 2 ^ 149" by simp
  ultimately show ?thesis by linarith
next
  case False
  then have e: "expo x = - 126" by (simp add: expo_def)
  have "ulp x = 1 / 2 ^ 149"
    by (simp add: ulp_def e powr_minus inverse_eq_divide)
  then show ?thesis by simp
qed

lemma nearest_error:
  assumes "x \<noteq> 0"
  shows "\<bar>nearest x - x\<bar> \<le> \<bar>x\<bar> / 2 ^ 24 + 1 / 2 ^ 150"
proof -
  have "nearest x - x = (of_int (round_half_even (x / ulp x)) - x / ulp x) * ulp x"
    using ulp_pos [of x] by (simp add: nearest_def algebra_simps)
  then have "\<bar>nearest x - x\<bar> = \<bar>of_int (round_half_even (x / ulp x)) - x / ulp x\<bar> * ulp x"
    using ulp_pos [of x] by (simp add: abs_mult)
  also have "\<dots> \<le> 1 / 2 * ulp x"
    using round_half_even_error [of "x / ulp x"] ulp_pos [of x] by (simp add: mult_right_mono)
  also have "\<dots> \<le> 1 / 2 * (\<bar>x\<bar> / 2 ^ 23 + 1 / 2 ^ 149)"
    using ulp_bound [OF assms] by simp
  also have "\<dots> = \<bar>x\<bar> / 2 ^ 24 + 1 / 2 ^ 150" by simp
  finally show ?thesis .
qed

lemma rnd_error:
  assumes "rnd x = Fin y"
  shows "\<bar>y - x\<bar> \<le> \<bar>x\<bar> / 2 ^ 24 + 1 / 2 ^ 150"
proof (cases "x = 0")
  case True
  with assms show ?thesis by (simp add: rnd_def)
next
  case False
  with assms have "y = nearest x" by (simp add: rnd_def split: if_splits)
  with nearest_error [OF False] show ?thesis by simp
qed

lemma rnd_finite:
  assumes "\<bar>x\<bar> \<le> 3 * 2 ^ 126"
  shows "\<exists>y. rnd x = Fin y \<and> \<bar>y - x\<bar> \<le> \<bar>x\<bar> / 2 ^ 24 + 1 / 2 ^ 150"
proof (cases "x = 0")
  case True
  then show ?thesis by (simp add: rnd_def)
next
  case False
  have "\<bar>nearest x\<bar> \<le> \<bar>x\<bar> + \<bar>nearest x - x\<bar>" by linarith
  also have "\<dots> \<le> \<bar>x\<bar> + (\<bar>x\<bar> / 2 ^ 24 + 1 / 2 ^ 150)"
    using nearest_error [OF False] by simp
  also have "\<dots> \<le> 3 * 2 ^ 126 + (3 * 2 ^ 126 / 2 ^ 24 + 1 / 2 ^ 150)"
    using assms by (simp add: add_mono divide_right_mono)
  also have "\<dots> < 2 ^ 128" by simp
  finally have "rnd x = Fin (nearest x)" using False by (simp add: rnd_def)
  with nearest_error [OF False] show ?thesis by simp
qed

lemma f_ops_fin [simp]:
  "f_add (Fin x) (Fin y) = rnd (x + y)"
  "f_sub (Fin x) (Fin y) = rnd (x - y)"
  "f_mul (Fin x) (Fin y) = rnd (x * y)"
  by (simp_all add: f_add_def f_sub_def f_mul_def f_neg_def)

lemma interpolate_entry_bound:
  fixes a r f B :: real
  assumes a: "0 \<le> a" "a \<le> 1" and r: "\<bar>r\<bar> \<le> B" and f: "\<bar>f\<bar> \<le> B" and B: "B \<le> 2 ^ 127"
  shows "\<exists>v. f_add (f_mul (Fin a) (Fin r)) (f_mul (f_sub (Fin 1) (Fin a)) (Fin f)) = Fin v
           \<and> \<bar>v - (a * r + (1 - a) * f)\<bar> \<le> B / 2 ^ 21 + 1 / 2 ^ 148"
proof -
  define eta :: real where "eta = 1 / 2 ^ 24"
  define zeta :: real where "zeta = 1 / 2 ^ 150"
  have eta: "0 < eta" "eta \<le> 1 / 16" and zeta: "0 < zeta" "zeta \<le> eta" "zeta \<le> 1 / 16"
    by (simp_all add: eta_def zeta_def)
  have B0: "0 \<le> B" using r by linarith
  have ar: "\<bar>a * r\<bar> \<le> B"
  proof -
    have "\<bar>a * r\<bar> = a * \<bar>r\<bar>" using a by (simp add: abs_mult)
    also have "\<dots> \<le> 1 * B" using a r B0 by (intro mult_mono) simp_all
    finally show ?thesis by simp
  qed
  have "\<bar>a * r\<bar> \<le> 3 * 2 ^ 126" using ar B by simp
  from rnd_finite [OF this] obtain p where p: "rnd (a * r) = Fin p"
    and pe: "\<bar>p - a * r\<bar> \<le> \<bar>a * r\<bar> * eta + zeta" by (auto simp: eta_def zeta_def)
  have pe': "\<bar>p - a * r\<bar> \<le> eta * B + zeta"
  proof -
    have "\<bar>a * r\<bar> * eta \<le> B * eta" using ar eta by (intro mult_right_mono) simp_all
    with pe show ?thesis by (simp add: mult.commute)
  qed
  have "\<bar>1 - a\<bar> \<le> 3 * 2 ^ 126" using a by simp
  from rnd_finite [OF this] obtain t where t: "rnd (1 - a) = Fin t"
    and te: "\<bar>t - (1 - a)\<bar> \<le> \<bar>1 - a\<bar> * eta + zeta" by (auto simp: eta_def zeta_def)
  have te': "\<bar>t - (1 - a)\<bar> \<le> eta + zeta"
  proof -
    have "\<bar>1 - a\<bar> * eta \<le> 1 * eta" using a eta by (intro mult_right_mono) simp_all
    with te show ?thesis by simp
  qed
  have tb: "\<bar>t\<bar> \<le> 9 / 8" using te' a eta zeta by linarith
  have tf: "\<bar>t * f\<bar> \<le> 9 / 8 * B"
  proof -
    have "\<bar>t * f\<bar> = \<bar>t\<bar> * \<bar>f\<bar>" by (simp add: abs_mult)
    also have "\<dots> \<le> 9 / 8 * B" using tb f B0 by (intro mult_mono) simp_all
    finally show ?thesis .
  qed
  have "\<bar>t * f\<bar> \<le> 3 * 2 ^ 126" using tf B by simp
  from rnd_finite [OF this] obtain s where s: "rnd (t * f) = Fin s"
    and se: "\<bar>s - t * f\<bar> \<le> \<bar>t * f\<bar> * eta + zeta" by (auto simp: eta_def zeta_def)
  have se': "\<bar>s - t * f\<bar> \<le> 2 * (eta * B) + zeta"
  proof -
    have "\<bar>t * f\<bar> * eta \<le> (9 / 8 * B) * eta" using tf eta by (intro mult_right_mono) simp_all
    also have "\<dots> \<le> 2 * (eta * B)" using B0 eta by (simp add: mult_left_mono)
    finally show ?thesis using se by simp
  qed
  have tfe: "\<bar>t * f - (1 - a) * f\<bar> \<le> 2 * (eta * B)"
  proof -
    have "\<bar>t * f - (1 - a) * f\<bar> = \<bar>t - (1 - a)\<bar> * \<bar>f\<bar>"
      by (simp add: abs_mult [symmetric] algebra_simps)
    also have "\<dots> \<le> (eta + zeta) * B" using te' f B0 by (intro mult_mono) simp_all
    also have "\<dots> \<le> (eta + eta) * B" using zeta B0 by (intro mult_right_mono) simp_all
    finally show ?thesis by (simp add: algebra_simps)
  qed
  define E where "E = a * r + (1 - a) * f"
  have Eb: "\<bar>E\<bar> \<le> B"
  proof -
    have "\<bar>E\<bar> \<le> \<bar>a * r\<bar> + \<bar>(1 - a) * f\<bar>"
      unfolding E_def by (rule abs_triangle_ineq)
    also have "\<dots> = a * \<bar>r\<bar> + (1 - a) * \<bar>f\<bar>"
      using a by (simp add: abs_mult)
    also have "\<dots> \<le> a * B + (1 - a) * B" using a r f by (intro add_mono mult_left_mono) simp_all
    finally show ?thesis by (simp add: algebra_simps)
  qed
  have D: "\<bar>p + s - E\<bar> \<le> 5 * (eta * B) + 2 * zeta"
  proof -
    have "p + s - E = (p - a * r) + (s - t * f) + (t * f - (1 - a) * f)"
      by (simp add: E_def)
    then have "\<bar>p + s - E\<bar> \<le> \<bar>p - a * r\<bar> + \<bar>s - t * f\<bar> + \<bar>t * f - (1 - a) * f\<bar>"
      by linarith
    with pe' se' tfe show ?thesis by linarith
  qed
  have etaB: "eta * B \<le> 2 ^ 103"
  proof -
    have "eta * B = B / 2 ^ 24" by (simp add: eta_def)
    also have "\<dots> \<le> 2 ^ 127 / 2 ^ 24" using B by (rule divide_right_mono) simp
    also have "\<dots> = 2 ^ 103" by simp
    finally show ?thesis .
  qed
  have ps: "\<bar>p + s\<bar> \<le> B + 5 * (eta * B) + 2 * zeta" using D Eb by linarith
  have "\<bar>p + s\<bar> \<le> 3 * 2 ^ 126" using ps B etaB zeta eta by simp
  from rnd_finite [OF this] obtain v where v: "rnd (p + s) = Fin v"
    and ve: "\<bar>v - (p + s)\<bar> \<le> \<bar>p + s\<bar> * eta + zeta" by (auto simp: eta_def zeta_def)
  have ve': "\<bar>v - (p + s)\<bar> \<le> 2 * (eta * B) + 2 * zeta"
  proof -
    have "\<bar>p + s\<bar> * eta \<le> (B + 5 * (eta * B) + 2 * zeta) * eta"
      using ps eta by (intro mult_right_mono) simp_all
    also have "\<dots> = eta * B + (5 * eta) * (eta * B) + (2 * eta) * zeta" by (simp add: algebra_simps)
    also have "\<dots> \<le> eta * B + 1 * (eta * B) + 1 * zeta"
      using eta zeta B0 by (intro add_mono mult_right_mono) simp_all
    finally have "\<bar>p + s\<bar> * eta \<le> 2 * (eta * B) + zeta" by (simp add: mult.commute)
    with ve show ?thesis by linarith
  qed
  have "\<bar>v - E\<bar> \<le> 7 * (eta * B) + 4 * zeta" using ve' D by linarith
  also have "\<dots> \<le> 8 * (eta * B) + 4 * zeta" using eta B0 by simp
  also have "\<dots> = B / 2 ^ 21 + 1 / 2 ^ 148" by (simp add: eta_def zeta_def)
  finally have "\<bar>v - E\<bar> \<le> B / 2 ^ 21 + 1 / 2 ^ 148" .
  moreover have "f_add (f_mul (Fin a) (Fin r)) (f_mul (f_sub (Fin 1) (Fin a)) (Fin f)) = Fin v"
    by (simp add: p t s v)
  ultimately show ?thesis unfolding E_def by blast
qed

lemma nearest_at:
  assumes "2 powr of_int k \<le> \<bar>x\<bar>" and "\<bar>x\<bar> < 2 powr (of_int k + 1)" and "- 126 \<le> k"
  shows "nearest x = of_int (round_half_even (x / 2 powr (of_int k - 23))) * 2 powr (of_int k - 23)"
proof -
  have "(0::real) < 2 powr of_int k" by simp
  with assms(1) have "0 < \<bar>x\<bar>" by linarith
  then have "\<lfloor>log 2 \<bar>x\<bar>\<rfloor> = k"
    using floor_log_eq_powr_iff [of "\<bar>x\<bar>" 2 k] assms(1,2) by simp
  then have "expo x = k" using assms(3) by (simp add: expo_def)
  then show ?thesis by (simp add: nearest_def ulp_def)
qed

lemma rnd_p: "rnd (1745919 / 2 ^ 23 * (15599439 / 2 ^ 24)) = Fin (6493415 / 2 ^ 25)"
proof -
  let ?x = "1745919 / 2 ^ 23 * (15599439 / 2 ^ 24) :: real"
  have "nearest ?x = of_int (round_half_even (?x / 2 powr (of_int (- 3) - 23))) * 2 powr (of_int (- 3) - 23)"
    by (rule nearest_at) (simp_all add: powr_minus)
  moreover have "?x / 2 powr (of_int (- 3) - 23) = 27235356939441 / 2097152"
    by (simp add: powr_minus)
  moreover have "round_half_even (27235356939441 / 2097152) = 12986830"
    by (simp add: round_half_even_def Let_def)
  ultimately have "nearest ?x = 6493415 / 2 ^ 25" by (simp add: powr_minus)
  then show ?thesis by (simp add: rnd_def)
qed

lemma round_half_even_between:
  "\<lfloor>q\<rfloor> \<le> round_half_even q \<and> round_half_even q \<le> \<lceil>q\<rceil>"
proof (cases "q = of_int \<lfloor>q\<rfloor>")
  case True
  then have "round_half_even q = \<lfloor>q\<rfloor>"
    by (metis round_half_even_of_int)
  moreover from True have "\<lceil>q\<rceil> = \<lfloor>q\<rfloor>" by (metis ceiling_of_int)
  ultimately show ?thesis by simp
next
  case False
  then have "\<lceil>q\<rceil> = \<lfloor>q\<rfloor> + 1" by (simp add: ceiling_altdef)
  then show ?thesis by (simp add: round_half_even_def Let_def)
qed

lemma round_half_even_abs:
  assumes "\<bar>q\<bar> \<le> of_int N"
  shows "\<bar>round_half_even q\<bar> \<le> N"
proof -
  have "- of_int N \<le> q" "q \<le> of_int N" using assms by linarith+
  then have "- N \<le> \<lfloor>q\<rfloor>" "\<lceil>q\<rceil> \<le> N"
    by (simp_all add: le_floor_iff ceiling_le_iff)
  with round_half_even_between [of q] show ?thesis by linarith
qed

lemma powr_int_nonneg: "0 \<le> j \<Longrightarrow> (2::real) powr of_int j = of_int (2 ^ nat j)"
  by (simp add: powr_real_of_int)

lemma rnd_grid:
  fixes n k :: int
  assumes n: "\<bar>n\<bar> < 2 ^ 24" and k: "- 149 \<le> k"
    and fin: "\<bar>of_int n * 2 powr of_int k\<bar> < (2::real) ^ 128"
  shows "rnd (of_int n * 2 powr of_int k) = Fin (of_int n * 2 powr of_int k)"
proof (cases "n = 0")
  case True
  then show ?thesis by (simp add: rnd_def)
next
  case False
  let ?y = "of_int n * 2 powr of_int k :: real"
  have y0: "?y \<noteq> 0" using False by simp
  have absn: "(1::real) \<le> \<bar>of_int n\<bar>" using False by (simp flip: of_int_abs add: of_int_1_le_iff)
  have logy: "log 2 \<bar>?y\<bar> = log 2 \<bar>of_int n\<bar> + of_int k"
    using False by (simp add: abs_mult log_mult)
  have "\<bar>of_int n :: real\<bar> < 2 ^ 24" using n by (simp flip: of_int_abs)
  then have "log 2 \<bar>of_int n :: real\<bar> < 24"
    using absn by (metis log_less_iff abs_zero less_numeral_extra(1) not_less one_less_numeral_iff
        order_less_le_trans powr_numeral semiring_norm(76) zero_le_numeral zero_less_one)
  then have "\<lfloor>log 2 \<bar>?y\<bar>\<rfloor> \<le> 23 + k"
    unfolding logy by (simp add: floor_le_iff) 
  then have e: "expo ?y \<le> k + 23" using k by (simp add: expo_def)
  define j where "j = k + 23 - expo ?y"
  have j: "0 \<le> j" using e by (simp add: j_def)
  have "?y / ulp ?y = of_int n * 2 powr (of_int k - (of_int (expo ?y) - 23))"
    by (simp add: ulp_def powr_diff)
  also have "of_int k - (of_int (expo ?y) - 23) = (of_int j :: real)" by (simp add: j_def)
  also have "of_int n * 2 powr of_int j = (of_int (n * 2 ^ nat j) :: real)"
    using j by (simp add: powr_int_nonneg)
  finally have q: "?y / ulp ?y = of_int (n * 2 ^ nat j)" .
  have "nearest ?y = of_int (n * 2 ^ nat j) * ulp ?y"
    unfolding nearest_def q by (simp only: round_half_even_of_int)
  also have "\<dots> = ?y / ulp ?y * ulp ?y" by (simp only: q)
  also have "\<dots> = ?y" using ulp_pos [of ?y] by simp
  finally have "nearest ?y = ?y" .
  then show ?thesis using y0 fin by (simp add: rnd_def)
qed

lemma abs_lt_pow_expo: "x \<noteq> 0 \<Longrightarrow> \<bar>x\<bar> < 2 powr (of_int (expo x) + 1)"
proof -
  assume x: "x \<noteq> 0"
  have "\<bar>x\<bar> < 2 powr (of_int \<lfloor>log 2 \<bar>x\<bar>\<rfloor> + 1)"
    using floor_log_eq_powr_iff [of "\<bar>x\<bar>" 2 "\<lfloor>log 2 \<bar>x\<bar>\<rfloor>"] x by simp
  also have "\<dots> \<le> 2 powr (of_int (expo x) + 1)" by (simp add: expo_def)
  finally show ?thesis .
qed

lemma rnd_idem:
  assumes "rnd x = Fin y"
  shows "rnd y = Fin y"
proof (cases "x = 0")
  case True
  with assms show ?thesis by (auto simp: rnd_def)
next
  case False
  define k where "k = expo x - 23"
  define n where "n = round_half_even (x / ulp x)"
  have u: "ulp x = 2 powr of_int k" by (simp add: ulp_def k_def)
  have y: "y = of_int n * 2 powr of_int k" and fin: "\<bar>y\<bar> < 2 ^ 128"
    using assms False by (simp_all add: rnd_def nearest_def n_def u split: if_splits)
  have k: "- 149 \<le> k" by (simp add: k_def expo_def)
  have "\<bar>x / ulp x\<bar> = \<bar>x\<bar> / 2 powr of_int k" by (simp add: u)
  also have "\<dots> < 2 powr (of_int (expo x) + 1) / 2 powr of_int k"
    using abs_lt_pow_expo [OF False] by (simp add: divide_strict_right_mono)
  also have "\<dots> = 2 powr 24" by (simp add: k_def flip: powr_diff)
  also have "\<dots> = of_int (2 ^ 24)" by simp
  finally have "\<bar>x / ulp x\<bar> \<le> of_int (2 ^ 24)" by simp
  then have nb: "\<bar>n\<bar> \<le> 2 ^ 24" unfolding n_def by (rule round_half_even_abs)
  show ?thesis
  proof (cases "\<bar>n\<bar> < 2 ^ 24")
    case True
    from rnd_grid [OF True k] fin show ?thesis by (simp add: y)
  next
    case False
    with nb have "n = 2 ^ 24 \<or> n = - (2 ^ 24)" by linarith
    then have "y = of_int (n div 2) * 2 powr of_int (k + 1)" and "\<bar>n div 2\<bar> < 2 ^ 24"
      by (auto simp: y powr_add)
    moreover have "- 149 \<le> k + 1" using k by simp
    ultimately show ?thesis using rnd_grid [of "n div 2" "k + 1"] fin by simp
  qed
qed

lemma nearest_nonneg: "0 \<le> x \<Longrightarrow> 0 \<le> nearest x"
  using ulp_pos [of x] by (simp add: nearest_def round_half_even_nonneg)

lemma rnd_nonneg_cases:
  assumes "0 \<le> x"
  shows "rnd x = PInf \<or> (\<exists>y. rnd x = Fin y \<and> 0 \<le> y)"
  using assms nearest_nonneg [OF assms] by (auto simp: rnd_def)

lemma rnd_one: "rnd 1 = Fin 1"
  using rnd_grid [of 1 0] by simp

lemma nonneg_or_nan_rnd: "0 \<le> x \<Longrightarrow> nonneg_or_nan (rnd x)"
  using rnd_nonneg_cases [of x] by (auto simp: nonneg_or_nan_def)

lemma nonneg_or_nan_square: "nonneg_or_nan (f_mul d d)"
proof (cases d)
  case (Fin x)
  then show ?thesis by (simp add: nonneg_or_nan_rnd)
qed (simp_all add: f_mul_def nonneg_or_nan_def)

lemma fin_vals_nonneg:
  assumes "\<forall>v\<in>set vs. nonneg_or_nan v"
  shows "0 \<le> sum_list (fin_vals vs)"
proof -
  have "\<forall>x\<in>set (fin_vals vs). 0 \<le> x"
    using assms by (auto simp: fin_vals_def nonneg_or_nan_def split: f32.splits)
  then show ?thesis by (simp add: sum_list_nonneg)
qed

lemma nonneg_or_nan_mean32:
  assumes "\<forall>v\<in>set vs. nonneg_or_nan v"
  shows "nonneg_or_nan (mean32 vs)"
proof -
  have "NInf \<notin> set vs" using assms by (auto simp: nonneg_or_nan_def)
  moreover have "0 \<le> sum_list (fin_vals vs) / real (length vs)"
    using fin_vals_nonneg [OF assms] by simp
  ultimately show ?thesis
    by (auto simp: mean32_def nonneg_or_nan_rnd) (simp_all add: nonneg_or_nan_def)
qed

lemma nonneg_or_nan_scale:
  assumes "0 \<le> fac" and "nonneg_or_nan g"
  shows "nonneg_or_nan (f_mul (rnd fac) g)"
proof -
  from rnd_nonneg_cases [OF assms(1)]
  consider "rnd fac = PInf" | y where "rnd fac = Fin y" "0 \<le> y" by blast
  then show ?thesis
  proof cases
    case 1
    with assms(2) show ?thesis
      by (cases g) (auto simp: f_mul_def f_sgn_inf_def nonneg_or_nan_def)
  next
    case 2
    show ?thesis
    proof (cases g)
      case (Fin x)
      with assms(2) have "0 \<le> y * x" using 2 by (simp add: nonneg_or_nan_def)
      then show ?thesis using 2 Fin by (simp add: nonneg_or_nan_rnd)
    qed (use 2 assms(2) in \<open>auto simp: f_mul_def f_sgn_inf_def nonneg_or_nan_def\<close>)
  qed
qed

lemma representable_rnd: "representable (rnd x)"
  by (cases "rnd x") (auto simp: representable_def intro: rnd_idem)

lemma representable_mean32: "representable (mean32 vs)"
  by (auto simp: mean32_def representable_rnd) (simp_all add: representable_def)

lemma f_mul_one: "representable m \<Longrightarrow> f_mul (Fin 1) m = m"
  by (cases m) (simp_all add: f_mul_def f_sgn_inf_def representable_def)

lemma rnd_at:
  assumes "2 powr of_int k \<le> \<bar>x\<bar>" and "\<bar>x\<bar> < 2 powr (of_int k + 1)" and "- 126 \<le> k"
    and "round_half_even (x / 2 powr (of_int k - 23)) = n"
  shows "rnd x =
     (if (2::real) ^ 128 \<le> \<bar>of_int n * 2 powr (of_int k - 23)\<bar> then (if 0 < x then PInf else NInf)
      else Fin (of_int n * 2 powr (of_int k - 23)))"
proof -
  have "(0::real) < 2 powr of_int k" by simp
  with assms(1) have "x \<noteq> 0" by auto
  moreover have "nearest x = of_int n * 2 powr (of_int k - 23)"
    using nearest_at [OF assms(1-3)] assms(4) by simp
  ultimately show ?thesis by (simp add: rnd_def)
qed

lemma rnd_dyadic:
  fixes n :: int and k :: nat
  assumes "\<bar>n\<bar> < 2 ^ 24" and "k \<le> 149"
  shows "rnd (of_int n / 2 ^ k) = Fin (of_int n / 2 ^ k)"
proof -
  have e: "of_int n * 2 powr of_int (- int k) = (of_int n / 2 ^ k :: real)"
    by (simp add: powr_minus powr_realpow divide_inverse)
  have "\<bar>of_int n / 2 ^ k :: real\<bar> \<le> \<bar>of_int n\<bar>"
    by (simp add: divide_le_eq mult_le_cancel_left1 flip: abs_mult)
  also have "\<dots> < 2 ^ 24" using assms(1) by (metis of_int_abs of_int_less_iff of_int_numeral of_int_power)
  also have "\<dots> < (2::real) ^ 128" by simp
  finally have "\<bar>of_int n * 2 powr of_int (- int k)\<bar> < (2::real) ^ 128" by (simp only: e)
  moreover have "- 149 \<le> - int k" using assms(2) by simp
  ultimately show ?thesis using rnd_grid [OF assms(1), of "- int k"] by (simp only: e)
qed

lemma rnd_zero: "rnd 0 = Fin 0"
  by (simp add: rnd_def)

lemma rnd_small_int:
  "rnd 2 = Fin 2" "rnd 3 = Fin 3" "rnd 4 = Fin 4" "rnd 10 = Fin 10"
  using rnd_dyadic [of 2 0] rnd_dyadic [of 3 0] rnd_dyadic [of 4 0] rnd_dyadic [of 10 0]
  by simp_all

lemma rnd_micro: "\<exists>m. rnd (1 / 1000000) = Fin m \<and> 0 \<le> m \<and> m \<le> 1"
proof -
  obtain m where m: "rnd (1 / 1000000) = Fin m"
    and e: "\<bar>m - 1 / 1000000\<bar> \<le> \<bar>1 / 1000000\<bar> / 2 ^ 24 + 1 / 2 ^ 150"
    using rnd_finite [of "1 / 1000000"] by auto
  have "\<bar>1 / 1000000\<bar> / 2 ^ 24 + 1 / 2 ^ 150 \<le> (1 / 2 :: real)" by simp
  with e have "\<bar>m - 1 / 1000000\<bar> \<le> 1 / 2" by linarith
  then have "m \<le> 1" by linarith
  moreover have "0 \<le> m" using rnd_nonneg_cases [of "1 / 1000000"] m by simp
  ultimately show ?thesis using m by blast
qed

lemma norm32_single: "norm32 [Fin v] = rnd \<bar>v\<bar>"
  by (simp add: norm32_def fin_vals_def)

lemma clamp_min32_above:
  "rnd (1 / 1000000) = Fin m \<Longrightarrow> m \<le> v \<Longrightarrow> clamp_min32 (rnd (1 / 1000000)) (Fin v) = Fin v"
  by (simp add: clamp_min32_def)

lemma length_interpolates32:
  "length (interpolates32 alpha real_samples fake_samples) =
     min (length alpha) (min (length real_samples) (length fake_samples))"
  by (simp add: interpolates32_def)

lemma nth_interpolates32:
  assumes "i < length alpha" "i < length real_samples" "i < length fake_samples"
  shows "interpolates32 alpha real_samples fake_samples ! i =
     map (\<lambda>(r, f). f_add (f_mul (alpha ! i) r) (f_mul (f_sub (Fin 1) (alpha ! i)) f))
       (zip (real_samples ! i) (fake_samples ! i))"
  using assms by (simp add: interpolates32_def)

lemma same_shape32_length: "same_shape32 xs ys \<Longrightarrow> length ys = length xs"
  by (simp add: same_shape32_def list_all2_lengthD)

lemma same_shape32_nth:
  "same_shape32 xs ys \<Longrightarrow> i < length xs \<Longrightarrow> length (ys ! i) = length (xs ! i)"
  by (auto simp: same_shape32_def dest: list_all2_nthD)

lemma length_drawn_interpolates32:
  assumes "same_shape32 real_samples fake_samples"
  shows "length (interpolates32 (map (\<lambda>i. Fin (rand i)) [0..<length real_samples])
            real_samples fake_samples) = length real_samples"
  using same_shape32_length [OF assms] by (simp add: length_interpolates32)

lemma gradient_penalty32_unfold:
  assumes "same_shape32 real_samples fake_samples"
  shows "gradient_penalty32 D real_samples fake_samples dev rand fac =
     (case D (interpolates32 (map (\<lambda>i. Fin (rand i)) [0..<length real_samples])
                (map (map float32) real_samples) (map (map float32) fake_samples)) of
        Inl e \<Rightarrow> Inl e
      | Inr g \<Rightarrow>
          if real_samples = [] then Inl RuntimeError
          else Inr (f_mul (rnd fac)
                 (mean32 (map (\<lambda>n. f_mul (f_sub n (Fin 1)) (f_sub n (Fin 1)))
                   (map (\<lambda>row. clamp_min32 (rnd (1 / 1000000)) (norm32 row))
                     (map g [0..<length real_samples]))))))"
  using same_shape32_length [OF assms]
  by (simp add: gradient_penalty32_def Let_def length_interpolates32 split: sum.splits)

lemma gradient_penalty32_sign:
  assumes "0 \<le> fac" and "same_shape32 real_samples fake_samples"
    and "gradient_penalty32 D real_samples fake_samples dev rand fac = Inr v"
  shows "nonneg_or_nan v"
proof -
  let ?x = "interpolates32 (map (\<lambda>i. Fin (rand i)) [0..<length real_samples])
              (map (map float32) real_samples) (map (map float32) fake_samples)"
  from assms(3) obtain g where
    v: "v = f_mul (rnd fac)
               (mean32 (map (\<lambda>n. f_mul (f_sub n (Fin 1)) (f_sub n (Fin 1)))
                 (map (\<lambda>row. clamp_min32 (rnd (1 / 1000000)) (norm32 row))
                   (map g [0..<length real_samples]))))"
    unfolding gradient_penalty32_unfold [OF assms(2), of D dev rand fac]
    by (cases "D ?x") (auto split: if_splits)
  show ?thesis
    unfolding v
    by (rule nonneg_or_nan_scale [OF assms(1)], rule nonneg_or_nan_mean32)
      (auto simp: nonneg_or_nan_square)
qed

text \<open>
  C5, amended. For a real and a fake batch of one shape and a factor that is not negative,
  \<open>gradient_penalty32\<close> raises exactly when the critic or its differentiation raises, or
  when the batch is empty (\<^verbatim>\<open>RuntimeError\<close>); and a value it returns is never a negative
  number nor \<open>-\<infinity>\<close>: it is \<^verbatim>\<open>nan\<close>, or \<open>+\<infinity>\<close>, or a finite number that is not negative.
\<close>

theorem gradient_penalty32_nonneg:
  assumes "0 \<le> fac" and "same_shape32 real_samples fake_samples"
  shows "(\<forall>e. gradient_penalty32 D real_samples fake_samples dev rand fac = Inl e \<longleftrightarrow>
            D (interpolates32 (map (\<lambda>i. Fin (rand i)) [0..<length real_samples])
                 (map (map float32) real_samples) (map (map float32) fake_samples)) = Inl e
          \<or> (\<exists>g. D (interpolates32 (map (\<lambda>i. Fin (rand i)) [0..<length real_samples])
                     (map (map float32) real_samples) (map (map float32) fake_samples)) = Inr g)
              \<and> real_samples = [] \<and> e = RuntimeError)
       \<and> (\<forall>v. gradient_penalty32 D real_samples fake_samples dev rand fac = Inr v \<longrightarrow>
            v = NaN \<or> v = PInf \<or> (\<exists>y. v = Fin y \<and> 0 \<le> y))"
proof -
  let ?x = "interpolates32 (map (\<lambda>i. Fin (rand i)) [0..<length real_samples])
              (map (map float32) real_samples) (map (map float32) fake_samples)"
  note u = gradient_penalty32_unfold [OF assms(2), of D dev rand fac]
  have raise: "gradient_penalty32 D real_samples fake_samples dev rand fac = Inl e \<longleftrightarrow>
            D ?x = Inl e \<or> (\<exists>g. D ?x = Inr g) \<and> real_samples = [] \<and> e = RuntimeError" for e
    unfolding u by (cases "D ?x") auto
  have val: "v = NaN \<or> v = PInf \<or> (\<exists>y. v = Fin y \<and> 0 \<le> y)"
    if "gradient_penalty32 D real_samples fake_samples dev rand fac = Inr v" for v
    using gradient_penalty32_sign [OF assms that] by (cases v) (simp_all add: nonneg_or_nan_def)
  show ?thesis using raise val by blast
qed

text \<open>
  C10, amended. For a real and a fake batch of one shape, with the drawn coefficients
  fixed: \<open>gradient_penalty32\<close> at factor \<open>f\<close> raises what it raises at factor 1, and
  otherwise returns the binary32 product of \<open>f\<close> and its value at factor 1. The factor 0
  gives exactly 0 when the value at factor 1 is finite; it gives \<^verbatim>\<open>nan\<close> when that value
  is \<open>+\<infinity>\<close> or \<^verbatim>\<open>nan\<close>; the value at factor 1 is never \<open>-\<infinity>\<close>.
\<close>

theorem gradient_penalty32_factor:
  assumes "same_shape32 real_samples fake_samples"
  shows "gradient_penalty32 D real_samples fake_samples dev rand fac =
           (case gradient_penalty32 D real_samples fake_samples dev rand 1 of
              Inl e \<Rightarrow> Inl e
            | Inr g \<Rightarrow> Inr (f_mul (rnd fac) g))
       \<and> (\<forall>e. gradient_penalty32 D real_samples fake_samples dev rand 1 = Inl e \<longrightarrow>
            gradient_penalty32 D real_samples fake_samples dev rand 0 = Inl e)
       \<and> (\<forall>v. gradient_penalty32 D real_samples fake_samples dev rand 1 = Inr (Fin v) \<longrightarrow>
            gradient_penalty32 D real_samples fake_samples dev rand 0 = Inr (Fin 0))
       \<and> (gradient_penalty32 D real_samples fake_samples dev rand 1 = Inr PInf
            \<or> gradient_penalty32 D real_samples fake_samples dev rand 1 = Inr NaN \<longrightarrow>
            gradient_penalty32 D real_samples fake_samples dev rand 0 = Inr NaN)
       \<and> gradient_penalty32 D real_samples fake_samples dev rand 1 \<noteq> Inr NInf"
proof -
  let ?x = "interpolates32 (map (\<lambda>i. Fin (rand i)) [0..<length real_samples])
              (map (map float32) real_samples) (map (map float32) fake_samples)"
  note u = gradient_penalty32_unfold [OF assms, of D dev rand]
  have eq: "gradient_penalty32 D real_samples fake_samples dev rand c =
           (case gradient_penalty32 D real_samples fake_samples dev rand 1 of
              Inl e \<Rightarrow> Inl e
            | Inr g \<Rightarrow> Inr (f_mul (rnd c) g))" for c
    unfolding u
    by (cases "D ?x") (simp_all add: rnd_one f_mul_one representable_mean32)
  have one: "gradient_penalty32 D real_samples fake_samples dev rand 1 \<noteq> Inr NInf"
    using gradient_penalty32_sign [OF _ assms, of 1 D dev rand NInf] by (auto simp: nonneg_or_nan_def)
  show ?thesis
    using eq [of fac] eq [of 0] one
    by (auto simp: rnd_zero f_mul_def f_sgn_inf_def split: sum.splits)
qed

text \<open>
  C3, amended. In binary32 the interpolated entry is not always between the real and the
  fake entry: each of the four operations of line 56 rounds. With coefficients in
  \<open>[0, 1]\<close> and a real and a fake batch of one shape whose entries are finite, of
  magnitude at most \<open>2 ^ 127\<close>, the interpolated batch has that shape, each of its entries
  is finite, and it lies between the minimum and the maximum of the real and the fake
  entry up to a rounding error of at most \<open>max \<bar>r\<bar> \<bar>f\<bar> / 2 ^ 21 + 1 / 2 ^ 148\<close>.
\<close>

theorem interpolates32_between:
  assumes "same_shape32 real_samples fake_samples"
    and "\<forall>i<length real_samples. 0 \<le> rand i \<and> rand i \<le> 1"
    and "\<forall>i<length real_samples. \<forall>j<length (real_samples ! i).
           \<exists>r f. real_samples ! i ! j = Fin r \<and> fake_samples ! i ! j = Fin f
                 \<and> \<bar>r\<bar> \<le> 2 ^ 127 \<and> \<bar>f\<bar> \<le> 2 ^ 127"
  shows "same_shape32 (interpolates32 (map (\<lambda>i. Fin (rand i)) [0..<length real_samples])
            real_samples fake_samples) real_samples
     \<and> (\<forall>i<length real_samples. \<forall>j<length (real_samples ! i).
          \<exists>r f v. real_samples ! i ! j = Fin r \<and> fake_samples ! i ! j = Fin f
            \<and> interpolates32 (map (\<lambda>i. Fin (rand i)) [0..<length real_samples])
                 real_samples fake_samples ! i ! j = Fin v
            \<and> min r f - (max \<bar>r\<bar> \<bar>f\<bar> / 2 ^ 21 + 1 / 2 ^ 148) \<le> v
            \<and> v \<le> max r f + (max \<bar>r\<bar> \<bar>f\<bar> / 2 ^ 21 + 1 / 2 ^ 148))"
proof -
  let ?x = "interpolates32 (map (\<lambda>i. Fin (rand i)) [0..<length real_samples])
              real_samples fake_samples"
  have len: "length fake_samples = length real_samples"
    using assms(1) by (rule same_shape32_length)
  have row: "?x ! i = map (\<lambda>(r, f). f_add (f_mul (Fin (rand i)) r) (f_mul (f_sub (Fin 1) (Fin (rand i))) f))
                        (zip (real_samples ! i) (fake_samples ! i))"
    if "i < length real_samples" for i
    using that len
      nth_interpolates32 [of i "map (\<lambda>i. Fin (rand i)) [0..<length real_samples]" real_samples fake_samples]
    by simp
  have rowlen: "length (?x ! i) = length (real_samples ! i)" if "i < length real_samples" for i
    using row [OF that] same_shape32_nth [OF assms(1) that] by simp
  have shape: "same_shape32 ?x real_samples"
    unfolding same_shape32_def
    by (rule list_all2_all_nthI) (simp_all add: length_drawn_interpolates32 [OF assms(1)] rowlen)
  have entry: "\<exists>r f v. real_samples ! i ! j = Fin r \<and> fake_samples ! i ! j = Fin f
            \<and> ?x ! i ! j = Fin v
            \<and> min r f - (max \<bar>r\<bar> \<bar>f\<bar> / 2 ^ 21 + 1 / 2 ^ 148) \<le> v
            \<and> v \<le> max r f + (max \<bar>r\<bar> \<bar>f\<bar> / 2 ^ 21 + 1 / 2 ^ 148)"
    if i: "i < length real_samples" and j: "j < length (real_samples ! i)" for i j
  proof -
    from assms(3) i j obtain r f where
      r: "real_samples ! i ! j = Fin r" and f: "fake_samples ! i ! j = Fin f"
      and rb: "\<bar>r\<bar> \<le> 2 ^ 127" and fb: "\<bar>f\<bar> \<le> 2 ^ 127"
      by blast
    have a: "0 \<le> rand i" "rand i \<le> 1" using assms(2) i by simp_all
    have x: "?x ! i ! j = f_add (f_mul (Fin (rand i)) (Fin r)) (f_mul (f_sub (Fin 1) (Fin (rand i))) (Fin f))"
      using row [OF i] j same_shape32_nth [OF assms(1) i] r f by simp
    have B: "\<bar>r\<bar> \<le> max \<bar>r\<bar> \<bar>f\<bar>" "\<bar>f\<bar> \<le> max \<bar>r\<bar> \<bar>f\<bar>" "max \<bar>r\<bar> \<bar>f\<bar> \<le> 2 ^ 127"
      using rb fb by simp_all
    from interpolate_entry_bound [OF a B] obtain v where
      v: "f_add (f_mul (Fin (rand i)) (Fin r)) (f_mul (f_sub (Fin 1) (Fin (rand i))) (Fin f)) = Fin v"
      and e: "\<bar>v - (rand i * r + (1 - rand i) * f)\<bar> \<le> max \<bar>r\<bar> \<bar>f\<bar> / 2 ^ 21 + 1 / 2 ^ 148"
      by blast
    from convex_between [OF a, of r f] e
    have "min r f - (max \<bar>r\<bar> \<bar>f\<bar> / 2 ^ 21 + 1 / 2 ^ 148) \<le> v"
      and "v \<le> max r f + (max \<bar>r\<bar> \<bar>f\<bar> / 2 ^ 21 + 1 / 2 ^ 148)"
      by linarith+
    with r f x v show ?thesis by simp
  qed
  show ?thesis using shape entry by blast
qed

lemma same_shape32_example:
  "same_shape32 [[Fin 1, Fin 2, Fin 3, Fin 4]] [[Fin 4, Fin 3, Fin 2, Fin 1]]"
  by (simp add: same_shape32_def)

lemma sum_critic32_penalty:
  "gradient_penalty32 sum_critic32 [[Fin 1, Fin 2, Fin 3, Fin 4]] [[Fin 4, Fin 3, Fin 2, Fin 1]]
     Cpu half_draws fac = Inr (f_mul (rnd fac) (Fin 1))"
proof -
  obtain m where m: "rnd (1 / 1000000) = Fin m" "m \<le> 1" using rnd_micro by blast
  have n: "norm32 [Fin 1, Fin 1, Fin 1, Fin 1] = Fin 2"
    by (simp add: norm32_def fin_vals_def rnd_small_int)
  have c: "clamp_min32 (rnd (1 / 1000000)) (Fin 2) = Fin 2"
    using m by (simp add: clamp_min32_def)
  have g: "mean32 [Fin 1] = Fin 1"
    by (simp add: mean32_def fin_vals_def rnd_one)
  show ?thesis
    by (simp add: gradient_penalty32_def interpolates32_def sum_critic32_def n c g rnd_one)
qed

theorem gradient_penalty32_nonneg_witness:
  "(0::real) \<le> 10
   \<and> same_shape32 [[Fin 1, Fin 2, Fin 3, Fin 4]] [[Fin 4, Fin 3, Fin 2, Fin 1]]
   \<and> gradient_penalty32 sum_critic32 [[Fin 1, Fin 2, Fin 3, Fin 4]] [[Fin 4, Fin 3, Fin 2, Fin 1]]
        Cpu half_draws 10 = Inr (Fin 10)
   \<and> (\<exists>y. Fin 10 = Fin y \<and> 0 \<le> y)"
proof -
  have k: "(0::real) \<le> 10" by simp
  show ?thesis
    using gradient_penalty32_nonneg [OF k same_shape32_example, of sum_critic32 Cpu half_draws]
      same_shape32_example sum_critic32_penalty [of 10]
    by (simp add: rnd_small_int)
qed

lemma rnd_steep_minus_one: "rnd (2 ^ 70 - 1) = Fin (2 ^ 70)"
proof -
  have "round_half_even ((2 ^ 70 - 1) / 2 powr (of_int 69 - 23)) = 16777216"
    by (simp add: round_half_even_def Let_def)
  from rnd_at [OF _ _ _ this] show ?thesis by simp
qed

lemma rnd_steep_square: "rnd (2 ^ 70 * 2 ^ 70) = PInf"
proof -
  have "round_half_even (2 ^ 70 * 2 ^ 70 / 2 powr (of_int 140 - 23)) = 8388608"
    by (simp add: round_half_even_def Let_def)
  from rnd_at [OF _ _ _ this] show ?thesis by simp
qed

lemma steep_critic32_penalty:
  "gradient_penalty32 steep_critic32 [[Fin 1]] [[Fin 1]] Cpu half_draws fac
     = Inr (f_mul (rnd fac) PInf)"
proof -
  obtain m where m: "rnd (1 / 1000000) = Fin m" "m \<le> 1" using rnd_micro by blast
  have n: "norm32 [Fin (2 ^ 70)] = Fin (2 ^ 70)"
    using rnd_dyadic [of "1" 0] rnd_grid [of 1 70] by (simp add: norm32_single)
  have c: "clamp_min32 (rnd (1 / 1000000)) (Fin (2 ^ 70)) = Fin (2 ^ 70)"
    using m by (simp add: clamp_min32_def)
  have d: "f_sub (Fin (2 ^ 70)) (Fin 1) = Fin (2 ^ 70)"
    using rnd_steep_minus_one by simp
  have q: "f_mul (Fin (2 ^ 70)) (Fin (2 ^ 70)) = PInf"
    using rnd_steep_square by simp
  have g: "mean32 [PInf] = PInf"
    by (simp add: mean32_def)
  show ?thesis
    using n c d q
    by (simp add: gradient_penalty32_def interpolates32_def steep_critic32_def g)
qed

text \<open>
  Against C5 as stated, at factor 10 and batches of equal size: a gradient of \<^verbatim>\<open>nan\<close>
  gives the penalty \<^verbatim>\<open>nan\<close>; a critic whose output cannot be differentiated, and the
  empty batch, give no value but \<^verbatim>\<open>RuntimeError\<close>.
\<close>

theorem gradient_penalty32_nonneg_counterexample:
  "gradient_penalty32 nan_critic32 [[Fin 0]] [[Fin 0]] Cpu half_draws 10 = Inr NaN
   \<and> gradient_penalty32 detached_critic32 [[Fin 0]] [[Fin 0]] Cpu half_draws 10 = Inl RuntimeError
   \<and> gradient_penalty32 sum_critic32 [] [] Cpu half_draws 10 = Inl RuntimeError"
  by (simp add: gradient_penalty32_def interpolates32_def nan_critic32_def detached_critic32_def
      sum_critic32_def norm32_def clamp_min32_def f_sub_def f_add_def f_mul_def mean32_def
      rnd_small_int)

text \<open>
  Against the last part of C10 as stated: a gradient of norm \<open>2 ^ 70\<close> makes the squared
  deviation overflow, the penalty at factor 1 is \<open>+\<infinity>\<close>, and at factor 0 it is
  \<^verbatim>\<open>nan\<close>, not 0; a critic whose output cannot be differentiated gives no value at all.
\<close>

theorem gradient_penalty32_factor_counterexample:
  "gradient_penalty32 steep_critic32 [[Fin 1]] [[Fin 1]] Cpu half_draws 0 = Inr NaN
   \<and> gradient_penalty32 steep_critic32 [[Fin 1]] [[Fin 1]] Cpu half_draws 1 = Inr PInf
   \<and> gradient_penalty32 detached_critic32 [[Fin 1]] [[Fin 1]] Cpu half_draws 0 = Inl RuntimeError"
proof -
  have "gradient_penalty32 detached_critic32 [[Fin 1]] [[Fin 1]] Cpu half_draws 0 = Inl RuntimeError"
    by (simp add: gradient_penalty32_def detached_critic32_def)
  then show ?thesis
    by (simp add: steep_critic32_penalty rnd_zero rnd_one f_mul_def f_sgn_inf_def)
qed

theorem gradient_penalty32_factor_witness:
  "same_shape32 [[Fin 1, Fin 2, Fin 3, Fin 4]] [[Fin 4, Fin 3, Fin 2, Fin 1]]
   \<and> gradient_penalty32 sum_critic32 [[Fin 1, Fin 2, Fin 3, Fin 4]] [[Fin 4, Fin 3, Fin 2, Fin 1]]
        Cpu half_draws 1 = Inr (Fin 1)
   \<and> gradient_penalty32 sum_critic32 [[Fin 1, Fin 2, Fin 3, Fin 4]] [[Fin 4, Fin 3, Fin 2, Fin 1]]
        Cpu half_draws 3 = Inr (Fin 3)
   \<and> gradient_penalty32 sum_critic32 [[Fin 1, Fin 2, Fin 3, Fin 4]] [[Fin 4, Fin 3, Fin 2, Fin 1]]
        Cpu half_draws 0 = Inr (Fin 0)"
  using gradient_penalty32_factor [OF same_shape32_example, of sum_critic32 Cpu half_draws 3]
    same_shape32_example sum_critic32_penalty [of 1] sum_critic32_penalty [of 3]
  by (simp add: rnd_small_int rnd_one rnd_zero)

lemma rnd_t: "rnd (1 - 1745919 / 2 ^ 23) = Fin (6642689 / 2 ^ 23)"
  using rnd_dyadic [of 6642689 23] by simp

lemma rnd_s: "rnd (6642689 / 2 ^ 23 * (15599439 / 2 ^ 24)) = Fin (12352731 / 2 ^ 24)"
proof -
  have "round_half_even (6642689 / 2 ^ 23 * (15599439 / 2 ^ 24) / 2 powr (of_int (- 1) - 23)) = 12352731"
    by (simp add: round_half_even_def Let_def powr_minus)
  from rnd_at [OF _ _ _ this] show ?thesis by (simp add: powr_minus)
qed

lemma rnd_v: "rnd (6493415 / 2 ^ 25 + 12352731 / 2 ^ 24) = Fin (7799719 / 2 ^ 23)"
proof -
  have "round_half_even ((6493415 / 2 ^ 25 + 12352731 / 2 ^ 24) / 2 powr (of_int (- 1) - 23)) = 15599438"
    by (simp add: round_half_even_def Let_def powr_minus)
  from rnd_at [OF _ _ _ this] show ?thesis by (simp add: powr_minus)
qed

text \<open>
  Against C3 as stated: with the coefficient \<open>1745919 / 2 ^ 23\<close> and the real and the
  fake entry both \<open>15599439 / 2 ^ 24\<close>, line 56 gives \<open>7799719 / 2 ^ 23\<close>, one unit in the
  last place below both.
\<close>

theorem interpolates32_between_counterexample:
  "interpolates32 [Fin (1745919 / 2 ^ 23)] [[Fin (15599439 / 2 ^ 24)]] [[Fin (15599439 / 2 ^ 24)]]
     = [[Fin (7799719 / 2 ^ 23)]]
   \<and> (7799719 / 2 ^ 23 :: real) < min (15599439 / 2 ^ 24) (15599439 / 2 ^ 24)"
proof -
  have "f_add (f_mul (Fin (1745919 / 2 ^ 23)) (Fin (15599439 / 2 ^ 24)))
          (f_mul (f_sub (Fin 1) (Fin (1745919 / 2 ^ 23))) (Fin (15599439 / 2 ^ 24)))
        = Fin (7799719 / 2 ^ 23)"
    by (simp only: f_ops_fin rnd_p rnd_t rnd_s rnd_v)
  then show ?thesis by (simp add: interpolates32_def)
qed

theorem interpolates32_between_witness:
  "same_shape32 [[Fin 0, Fin 4]] [[Fin 2, Fin 1]] \<and> (0::real) \<le> 1 / 4 \<and> (1::real) / 4 \<le> 1
   \<and> interpolates32 (map (\<lambda>i. Fin (1 / 4)) [0..<length [[Fin 0, Fin 4]]]) [[Fin 0, Fin 4]] [[Fin 2, Fin 1]]
       = [[Fin (3 / 2), Fin (7 / 4)]]
   \<and> min 0 2 - (max \<bar>0\<bar> \<bar>2\<bar> / 2 ^ 21 + 1 / 2 ^ 148) \<le> (3 / 2 :: real)
   \<and> (7 / 4 :: real) \<le> max 4 1 + (max \<bar>4\<bar> \<bar>1\<bar> / 2 ^ 21 + 1 / 2 ^ 148)"
proof -
  have s: "same_shape32 [[Fin 0, Fin 4]] [[Fin 2, Fin 1]]" by (simp add: same_shape32_def)
  have a: "\<forall>i<length [[Fin 0, Fin 4]]. (0::real) \<le> (\<lambda>_. 1 / 4) i \<and> (\<lambda>_. 1 / 4) i \<le> (1::real)" by simp
  have b: "\<forall>i<length [[Fin 0, Fin 4]]. \<forall>j<length ([[Fin 0, Fin 4]] ! i).
           \<exists>r f. [[Fin 0, Fin 4]] ! i ! j = Fin r \<and> [[Fin 2, Fin 1]] ! i ! j = Fin f
                 \<and> \<bar>r\<bar> \<le> 2 ^ 127 \<and> \<bar>f\<bar> \<le> 2 ^ 127"
    by (simp add: less_Suc_eq)
  have v: "interpolates32 (map (\<lambda>i. Fin (1 / 4)) [0..<length [[Fin 0, Fin 4]]]) [[Fin 0, Fin 4]] [[Fin 2, Fin 1]]
       = [[Fin (3 / 2), Fin (7 / 4)]]"
    using rnd_dyadic [of 3 2] rnd_dyadic [of 3 1] rnd_dyadic [of 7 2]
    by (simp add: interpolates32_def rnd_zero rnd_one)
  show ?thesis
    using interpolates32_between [OF s a b] s v by simp
qed

section \<open>The training loop: properties\<close>

lemma critic_update_ok:
  assumes "0 < batch_size"
  shows "critic_update a batch_size s =
           (None, s\<lparr>draws := Suc (draws s), loss_D := Some (draws s),
                    trace := trace s @ critic_step (factor a) batch_size (draws s)\<rparr>)"
  using assms by (simp add: critic_update_def emit_def critic_step_def Let_def)

lemma critic_update_empty:
  "fst (critic_update a 0 s) = Some RuntimeError"
  by (simp add: critic_update_def Let_def)

lemma critic_loop_ok:
  assumes "0 < batch_size"
  shows "critic_loop a batch_size n s =
           (None, s\<lparr>draws := draws s + n,
                    loss_D := (if n = 0 then loss_D s else Some (draws s + n - 1)),
                    trace := trace s @ concat (map (critic_step (factor a) batch_size)
                                                  [draws s..<draws s + n])\<rparr>)"
proof (induction n arbitrary: s)
  case 0
  show ?case by simp
next
  case (Suc n)
  show ?case
    by (simp add: critic_update_ok [OF assms] Suc.IH upt_conv_Cons del: upt_Suc)
qed


lemma critic_loop_empty:
  "0 < n \<Longrightarrow> fst (critic_loop a 0 n s) = Some RuntimeError"
  by (cases n) (simp_all add: critic_update_def Let_def)

lemma critic_loop_zero: "critic_loop a batch_size (nat k) s = (None, s)" if "k \<le> 0"
  using that by simp

lemma train_batch_ok:
  assumes "0 < batch_size" and "0 < n_critic a"
  shows "train_batch a batch_size s =
           (None, s\<lparr>draws := draws s + nat (n_critic a) + 1,
                    writer_step := writer_step s + 1,
                    loss_D := Some (draws s + nat (n_critic a) - 1),
                    loss_G := Some (draws s + nat (n_critic a)),
                    trace := trace s
                      @ concat (map (critic_step (factor a) batch_size)
                                  [draws s..<draws s + nat (n_critic a)])
                      @ generator_step batch_size (draws s + nat (n_critic a))
                      @ [Add_Scalar ''Loss/Critic'' (draws s + nat (n_critic a) - 1) (writer_step s),
                         Add_Scalar ''Loss/Generator'' (draws s + nat (n_critic a)) (writer_step s)]\<rparr>)"
  using assms
  by (simp add: train_batch_def critic_loop_ok generator_update_def log_losses_def emit_def
      generator_step_def Let_def)

lemma train_batch_returns:
  assumes "train_batch a batch_size s = (None, s')"
  shows "(0 < batch_size \<and> 0 < n_critic a) \<or> (n_critic a \<le> 0 \<and> loss_D s \<noteq> None \<and> loss_D s' = loss_D s)"
proof (cases "0 < n_critic a")
  case True
  then have n: "0 < nat (n_critic a)" by simp
  show ?thesis
  proof (cases "batch_size = 0")
    case True
    with critic_loop_empty [OF n, of a s] assms show ?thesis
      by (auto simp: train_batch_def split: prod.splits option.splits)
  next
    case False
    with True show ?thesis by simp
  qed
next
  case False
  then have "critic_loop a batch_size (nat (n_critic a)) s = (None, s)" by simp
  with assms False show ?thesis
    by (auto simp: train_batch_def generator_update_def log_losses_def emit_def Let_def
        split: option.splits)
qed

lemma epoch_end_loss_D: "loss_D (snd (epoch_end timestamp epoch s)) = loss_D s"
  by (simp add: epoch_end_def emit_def Let_def split: option.splits)

lemma between_batches_loss_D:
  "between_batches a e s \<Longrightarrow> loss_D s \<noteq> None \<Longrightarrow> 0 < n_critic a"
proof (induction rule: between_batches.induct)
  case start
  then show ?case by (simp add: before_loop_def Let_def)
next
  case (batch s batch_size s')
  from train_batch_returns [OF batch.hyps(3)] batch show ?case by auto
next
  case (epoch s epoch s')
  from epoch_end_loss_D [of "now e" epoch s] epoch show ?case by simp
qed

lemma count_critic_steps:
  "length (filter (\<lambda>ev. ev = Optimizer_Step Net_D)
     (concat (map (critic_step f batch_size) ks))) = length ks"
  by (induction ks) (simp_all add: critic_step_def)

lemma no_generator_step_in_critic_steps:
  "filter (\<lambda>ev. ev = Optimizer_Step Net_G) (concat (map (critic_step f batch_size) ks)) = []"
  by (induction ks) (simp_all add: critic_step_def)

lemma saves_append: "saves (xs @ ys) = saves xs @ saves ys"
  by (induction xs rule: saves.induct) simp_all

lemma epochs_completed_append:
  "epochs_completed (xs @ ys) = epochs_completed xs + epochs_completed ys"
  by (induction xs rule: epochs_completed.induct) simp_all

lemma critic_update_quiet:
  "saves (trace (snd (critic_update a batch_size s))) = saves (trace s)"
  "epochs_completed (trace (snd (critic_update a batch_size s))) = epochs_completed (trace s)"
  by (simp_all add: critic_update_def emit_def Let_def saves_append epochs_completed_append)

lemma critic_loop_quiet:
  "saves (trace (snd (critic_loop a batch_size n s))) = saves (trace s)
   \<and> epochs_completed (trace (snd (critic_loop a batch_size n s))) = epochs_completed (trace s)"
proof (induction n arbitrary: s)
  case 0
  show ?case by simp
next
  case (Suc n)
  obtain r s1 where u: "critic_update a batch_size s = (r, s1)" by (cases "critic_update a batch_size s")
  have q: "saves (trace s1) = saves (trace s)" "epochs_completed (trace s1) = epochs_completed (trace s)"
    using critic_update_quiet [of a batch_size s] u by simp_all
  show ?case
  proof (cases r)
    case None
    with u q Suc.IH [of s1] show ?thesis by simp
  next
    case (Some err)
    with u q show ?thesis by simp
  qed
qed

lemma train_batch_quiet:
  "saves (trace (snd (train_batch a batch_size s))) = saves (trace s)
   \<and> epochs_completed (trace (snd (train_batch a batch_size s))) = epochs_completed (trace s)"
proof -
  obtain r s1 where c: "critic_loop a batch_size (nat (n_critic a)) s = (r, s1)"
    by (cases "critic_loop a batch_size (nat (n_critic a)) s")
  have q: "saves (trace s1) = saves (trace s)" "epochs_completed (trace s1) = epochs_completed (trace s)"
    using critic_loop_quiet [of a batch_size "nat (n_critic a)" s] c by simp_all
  show ?thesis
  proof (cases r)
    case None
    with c q show ?thesis
      by (simp add: train_batch_def generator_update_def log_losses_def emit_def Let_def
          saves_append epochs_completed_append split: option.splits)
  next
    case (Some err)
    with c q show ?thesis by (simp add: train_batch_def)
  qed
qed

lemma batch_loop_quiet:
  "saves (trace (snd (batch_loop a bs s))) = saves (trace s)
   \<and> epochs_completed (trace (snd (batch_loop a bs s))) = epochs_completed (trace s)"
proof (induction bs arbitrary: s)
  case Nil
  show ?case by simp
next
  case (Cons b bs)
  obtain r s1 where u: "train_batch a b s = (r, s1)" by (cases "train_batch a b s")
  have q: "saves (trace s1) = saves (trace s)" "epochs_completed (trace s1) = epochs_completed (trace s)"
    using train_batch_quiet [of a b s] u by simp_all
  show ?case
  proof (cases r)
    case None
    with u q Cons.IH [of s1] show ?thesis by simp
  next
    case (Some err)
    with u q show ?thesis by simp
  qed
qed

lemma epoch_end_saves:
  "saves (trace (snd (epoch_end timestamp epoch s))) =
     saves (trace s) @ [(gw_path timestamp, Net_G, epoch), (dw_path timestamp, Net_D, epoch)]"
  by (simp add: epoch_end_def emit_def Let_def saves_append split: option.splits)

lemma epoch_end_completed:
  "epochs_completed (trace (snd (epoch_end timestamp epoch s))) =
     epochs_completed (trace s) + (if fst (epoch_end timestamp epoch s) = None then 1 else 0)"
  by (simp add: epoch_end_def emit_def Let_def epochs_completed_append split: option.splits)

lemma epoch_body_saves:
  "saves (trace (snd (epoch_body a timestamp epoch s))) =
     saves (trace s) @
       (if fst (batch_loop a (loader a) s) = None
        then [(gw_path timestamp, Net_G, epoch), (dw_path timestamp, Net_D, epoch)] else [])"
proof -
  obtain r s1 where b: "batch_loop a (loader a) s = (r, s1)" by (cases "batch_loop a (loader a) s")
  have q: "saves (trace s1) = saves (trace s)"
    using batch_loop_quiet [of a "loader a" s] b by simp
  show ?thesis
  proof (cases r)
    case None
    with b q epoch_end_saves [of timestamp epoch s1] show ?thesis by (simp add: epoch_body_def)
  next
    case (Some err)
    with b q show ?thesis by (simp add: epoch_body_def)
  qed
qed

lemma epoch_body_completed:
  "epochs_completed (trace (snd (epoch_body a timestamp epoch s))) =
     epochs_completed (trace s) + (if fst (epoch_body a timestamp epoch s) = None then 1 else 0)"
proof -
  obtain r s1 where b: "batch_loop a (loader a) s = (r, s1)" by (cases "batch_loop a (loader a) s")
  have q: "epochs_completed (trace s1) = epochs_completed (trace s)"
    using batch_loop_quiet [of a "loader a" s] b by simp
  show ?thesis
  proof (cases r)
    case None
    with b q epoch_end_completed [of timestamp epoch s1] show ?thesis by (simp add: epoch_body_def)
  next
    case (Some err)
    with b q show ?thesis by (simp add: epoch_body_def)
  qed
qed

lemma epoch_body_completes_batches:
  "fst (epoch_body a timestamp epoch s) = None \<Longrightarrow> fst (batch_loop a (loader a) s) = None"
  by (cases "batch_loop a (loader a) s") (auto simp: epoch_body_def split: option.splits)


lemma epoch_loop_Range:
  "epoch_loop a timestamp (Range_it i n) s =
     (if i < n
      then (case epoch_body a timestamp i s of
              (Some e, s') \<Rightarrow> Some (Some e, s')
            | (None, s') \<Rightarrow> epoch_loop a timestamp (Range_it (i + 1) n) s')
      else Some (None, s))"
  by (subst epoch_loop.simps) simp

lemma epoch_loop_Count:
  "epoch_loop a timestamp (Count_it i) s =
     (case epoch_body a timestamp i s of
        (Some e, s') \<Rightarrow> Some (Some e, s')
      | (None, s') \<Rightarrow> epoch_loop a timestamp (Count_it (i + 1)) s')"
  by (subst epoch_loop.simps) simp

lemma epoch_loop_Range_terminates:
  "\<exists>r. epoch_loop a timestamp (Range_it i n) s = Some r"
proof (induction "nat (n - i)" arbitrary: i s)
  case 0
  then show ?case by (simp add: epoch_loop_Range)
next
  case (Suc k)
  then have lt: "i < n" and k: "k = nat (n - (i + 1))" by linarith+
  obtain r s1 where b: "epoch_body a timestamp i s = (r, s1)"
    by (cases "epoch_body a timestamp i s")
  show ?case
  proof (cases r)
    case None
    with Suc.hyps(1) [OF k, of s1] b lt show ?thesis by (simp add: epoch_loop_Range)
  next
    case (Some err)
    with b lt show ?thesis by (simp add: epoch_loop_Range)
  qed
qed

lemma checkpoint_files_epoch_end:
  "checkpoint_files (trace (snd (epoch_end timestamp epoch s))) =
     (checkpoint_files (trace s))
       (gw_path timestamp \<mapsto> (Net_G, epoch), dw_path timestamp \<mapsto> (Net_D, epoch))"
  by (simp add: checkpoint_files_def epoch_end_saves)

lemma checkpoint_files_batch_loop:
  "checkpoint_files (trace (snd (batch_loop a bs s))) = checkpoint_files (trace s)"
  by (simp add: checkpoint_files_def batch_loop_quiet)

lemma checkpoint_files_epoch_body:
  assumes "epoch_body a timestamp epoch s = (None, s')"
  shows "checkpoint_files (trace s') =
     (checkpoint_files (trace s))
       (gw_path timestamp \<mapsto> (Net_G, epoch), dw_path timestamp \<mapsto> (Net_D, epoch))"
proof -
  have "fst (batch_loop a (loader a) s) = None"
    using assms epoch_body_completes_batches [of a timestamp epoch s] by simp
  then show ?thesis
    using epoch_body_saves [of a timestamp epoch s] assms by (simp add: checkpoint_files_def)
qed

lemma overwrite_twice:
  "m(p \<mapsto> x, q \<mapsto> y, p \<mapsto> x', q \<mapsto> y') = m(p \<mapsto> x', q \<mapsto> y')"
  by (rule ext) simp

lemma epoch_loop_Range_result:
  assumes "epoch_loop a timestamp (Range_it i n) s = Some (None, s')"
  shows "epochs_completed (trace s') = epochs_completed (trace s) + nat (n - i)
       \<and> checkpoint_files (trace s') =
           (if i < n
            then (checkpoint_files (trace s))
                   (gw_path timestamp \<mapsto> (Net_G, n - 1), dw_path timestamp \<mapsto> (Net_D, n - 1))
            else checkpoint_files (trace s))"
  using assms
proof (induction "nat (n - i)" arbitrary: i s)
  case 0
  then show ?case by (simp add: epoch_loop_Range)
next
  case (Suc k)
  then have lt: "i < n" and k: "k = nat (n - (i + 1))" by linarith+
  obtain r s1 where b: "epoch_body a timestamp i s = (r, s1)"
    by (cases "epoch_body a timestamp i s")
  with Suc.prems lt have r: "r = None" and rest: "epoch_loop a timestamp (Range_it (i + 1) n) s1 = Some (None, s')"
    by (auto simp: epoch_loop_Range split: option.splits)
  have c1: "epochs_completed (trace s1) = epochs_completed (trace s) + 1"
    using epoch_body_completed [of a timestamp i s] b r by simp
  have f1: "checkpoint_files (trace s1) =
     (checkpoint_files (trace s)) (gw_path timestamp \<mapsto> (Net_G, i), dw_path timestamp \<mapsto> (Net_D, i))"
    using checkpoint_files_epoch_body b r by simp
  from Suc.hyps(1) [OF k rest]
  have ih: "epochs_completed (trace s') = epochs_completed (trace s1) + nat (n - (i + 1))"
    "checkpoint_files (trace s') =
           (if i + 1 < n
            then (checkpoint_files (trace s1))
                   (gw_path timestamp \<mapsto> (Net_G, n - 1), dw_path timestamp \<mapsto> (Net_D, n - 1))
            else checkpoint_files (trace s1))"
    by simp_all
  have "epochs_completed (trace s') = epochs_completed (trace s) + nat (n - i)"
    using ih(1) c1 lt by linarith
  moreover have "checkpoint_files (trace s') =
      (checkpoint_files (trace s))
         (gw_path timestamp \<mapsto> (Net_G, n - 1), dw_path timestamp \<mapsto> (Net_D, n - 1))"
  proof (cases "i + 1 < n")
    case True
    with ih(2) f1 show ?thesis by (simp only: if_True overwrite_twice)
  next
    case False
    with lt have "i = n - 1" by simp
    with ih(2) f1 False show ?thesis by simp
  qed
  ultimately show ?case using lt by simp
qed

lemma epoch_loop_Range_completes:
  assumes "\<And>epoch s. fst (epoch_body a timestamp epoch s) = None"
  shows "\<exists>s'. epoch_loop a timestamp (Range_it i n) s = Some (None, s')"
proof (induction "nat (n - i)" arbitrary: i s)
  case 0
  then show ?case by (simp add: epoch_loop_Range)
next
  case (Suc k)
  then have lt: "i < n" and k: "k = nat (n - (i + 1))" by linarith+
  obtain r s1 where b: "epoch_body a timestamp i s = (r, s1)"
    by (cases "epoch_body a timestamp i s")
  with assms [of i s] have "r = None" by simp
  with Suc.hyps(1) [OF k, of s1] b lt show ?case by (simp add: epoch_loop_Range)
qed

lemma epoch_loop_paths:
  assumes "epoch_loop a timestamp it s = Some r"
  shows "fst ` set (saves (trace (snd r)))
       \<subseteq> fst ` set (saves (trace s)) \<union> {gw_path timestamp, dw_path timestamp}"
proof (rule epoch_loop.raw_induct
    [where P = "\<lambda>a ts it s r. fst ` set (saves (trace (snd r)))
       \<subseteq> fst ` set (saves (trace s)) \<union> {gw_path ts, dw_path ts}", OF _ assms], goal_cases)
  case (1 loop a timestamp it s r)
  show ?case
  proof (cases "next_epoch it")
    case None
    with 1(2) show ?thesis by auto
  next
    case (Some nx)
    obtain epoch it' where nx: "nx = (epoch, it')" by (cases nx)
    obtain o1 s1 where b: "epoch_body a timestamp epoch s = (o1, s1)"
      by (cases "epoch_body a timestamp epoch s")
    have p1: "fst ` set (saves (trace s1))
       \<subseteq> fst ` set (saves (trace s)) \<union> {gw_path timestamp, dw_path timestamp}"
      using epoch_body_saves [of a timestamp epoch s] b by auto
    show ?thesis
    proof (cases o1)
      case None
      with 1(2) Some nx b have "loop a timestamp it' s1 = Some r" by simp
      from 1(1) [OF this] p1 show ?thesis by auto
    next
      case (Some err)
      with 1(2) \<open>next_epoch it = Some nx\<close> nx b have "r = (Some err, s1)" by simp
      with p1 show ?thesis by simp
    qed
  qed
qed

lemma epoch_loop_Count_raises:
  assumes "epoch_loop a timestamp (Count_it i) s = Some r"
  shows "fst r \<noteq> None \<and> (\<exists>epoch s0. fst (epoch_body a timestamp epoch s0) \<noteq> None)"
proof -
  have "\<forall>j. Count_it i = Count_it j \<longrightarrow>
          fst r \<noteq> None \<and> (\<exists>epoch s0. fst (epoch_body a timestamp epoch s0) \<noteq> None)"
  proof (rule epoch_loop.raw_induct
    [where P = "\<lambda>a ts it s r. \<forall>i. it = Count_it i \<longrightarrow>
          fst r \<noteq> None \<and> (\<exists>epoch s0. fst (epoch_body a ts epoch s0) \<noteq> None)", OF _ assms],
    goal_cases)
    case (1 loop a timestamp it s r)
    show ?case
    proof (intro allI impI)
      fix i
      assume it: "it = Count_it i"
      obtain o1 s1 where b: "epoch_body a timestamp i s = (o1, s1)"
        by (cases "epoch_body a timestamp i s")
      show "fst r \<noteq> None \<and> (\<exists>epoch s0. fst (epoch_body a timestamp epoch s0) \<noteq> None)"
      proof (cases o1)
        case None
        with 1(2) it b have "loop a timestamp (Count_it (i + 1)) s1 = Some r" by simp
        from 1(1) [OF this] show ?thesis by simp
      next
        case (Some err)
        with 1(2) it b have "r = (Some err, s1)" by simp
        moreover have "fst (epoch_body a timestamp i s) \<noteq> None" using b Some by simp
        ultimately show ?thesis by auto
      qed
    qed
  qed
  then show ?thesis by simp
qed


lemma randn_draws_append: "randn_draws (xs @ ys) = randn_draws xs @ randn_draws ys"
  by (induction xs rule: randn_draws.induct) simp_all

lemma randn_draws_critic_steps:
  "randn_draws (concat (map (critic_step f batch_size) ks)) = ks"
  by (induction ks) (simp_all add: critic_step_def)

lemma between_batches_draws:
  "between_batches a e s \<Longrightarrow> \<forall>k\<in>set (randn_draws (trace s)). k < draws s"
proof (induction rule: between_batches.induct)
  case start
  show ?case by (simp add: before_loop_def Let_def)
next
  case (batch s batch_size s')
  from train_batch_returns [OF batch.hyps(3)] between_batches_loss_D [OF batch.hyps(1)]
  have pos: "0 < batch_size" "0 < n_critic a" by auto
  from train_batch_ok [OF pos, of s] batch.hyps(3)
  have "s' = s\<lparr>draws := draws s + nat (n_critic a) + 1,
                    writer_step := writer_step s + 1,
                    loss_D := Some (draws s + nat (n_critic a) - 1),
                    loss_G := Some (draws s + nat (n_critic a)),
                    trace := trace s
                      @ concat (map (critic_step (factor a) batch_size)
                                  [draws s..<draws s + nat (n_critic a)])
                      @ generator_step batch_size (draws s + nat (n_critic a))
                      @ [Add_Scalar ''Loss/Critic'' (draws s + nat (n_critic a) - 1) (writer_step s),
                         Add_Scalar ''Loss/Generator'' (draws s + nat (n_critic a)) (writer_step s)]\<rparr>"
    by simp
  then show ?case
    using batch.IH
    by (auto simp: randn_draws_append randn_draws_critic_steps generator_step_def)
next
  case (epoch s epoch s')
  have "draws (snd (epoch_end (now e) epoch s)) = Suc (draws s)"
    and "randn_draws (trace (snd (epoch_end (now e) epoch s))) = randn_draws (trace s) @ [draws s]"
    by (simp_all add: epoch_end_def emit_def Let_def randn_draws_append split: option.splits)
  with epoch.hyps(2) have "draws s' = Suc (draws s)"
    and "randn_draws (trace s') = randn_draws (trace s) @ [draws s]"
    by simp_all
  with epoch.IH show ?case by auto
qed

lemma batch_loop_between:
  "between_batches a e s \<Longrightarrow> set bs \<subseteq> set (loader a) \<Longrightarrow> batch_loop a bs s = (None, s')
     \<Longrightarrow> between_batches a e s'"
proof (induction bs arbitrary: s)
  case Nil
  then show ?case by simp
next
  case (Cons b bs)
  obtain r s1 where u: "train_batch a b s = (r, s1)" by (cases "train_batch a b s")
  with Cons.prems(3) have r: "r = None" and rest: "batch_loop a bs s1 = (None, s')"
    by (auto split: option.splits)
  have "between_batches a e s1"
    using between_batches.batch [OF Cons.prems(1), of b s1] Cons.prems(2) u r by simp
  from Cons.IH [OF this _ rest] Cons.prems(2) show ?case by simp
qed

lemma epoch_body_between:
  assumes "between_batches a e s" and "epoch_body a (now e) epoch s = (None, s')"
  shows "between_batches a e s'"
proof -
  obtain r s1 where b: "batch_loop a (loader a) s = (r, s1)" by (cases "batch_loop a (loader a) s")
  with assms(2) have r: "r = None" and en: "epoch_end (now e) epoch s1 = (None, s')"
    by (auto simp: epoch_body_def split: option.splits)
  have "between_batches a e s1"
    using batch_loop_between [OF assms(1) _ , of "loader a" s1] b r by simp
  then show ?thesis using en by (rule between_batches.epoch)
qed

lemma batch_loop_completes:
  assumes "\<forall>b\<in>set bs. 0 < b" and "0 < n_critic a"
    and "bs \<noteq> [] \<or> (loss_D s \<noteq> None \<and> loss_G s \<noteq> None)"
  shows "fst (batch_loop a bs s) = None
       \<and> loss_D (snd (batch_loop a bs s)) \<noteq> None \<and> loss_G (snd (batch_loop a bs s)) \<noteq> None"
  using assms(1,3)
proof (induction bs arbitrary: s)
  case Nil
  then show ?case by simp
next
  case (Cons b bs)
  then have b: "0 < b" by simp
  let ?s1 = "snd (train_batch a b s)"
  have t: "train_batch a b s = (None, ?s1)" "loss_D ?s1 \<noteq> None" "loss_G ?s1 \<noteq> None"
    by (simp_all add: train_batch_ok [OF b assms(2)])
  from Cons.IH [of ?s1] Cons.prems(1) t(2,3)
  have "fst (batch_loop a bs ?s1) = None
       \<and> loss_D (snd (batch_loop a bs ?s1)) \<noteq> None \<and> loss_G (snd (batch_loop a bs ?s1)) \<noteq> None"
    by simp
  moreover have "batch_loop a (b # bs) s = batch_loop a bs ?s1"
    using t(1) by (simp add: train_batch_ok [OF b assms(2)])
  ultimately show ?case by simp
qed

lemma epoch_body_completes:
  assumes "loader a \<noteq> []" and "\<forall>b\<in>set (loader a). 0 < b" and "0 < n_critic a"
  shows "fst (epoch_body a timestamp epoch s) = None"
proof -
  obtain r s1 where b: "batch_loop a (loader a) s = (r, s1)" by (cases "batch_loop a (loader a) s")
  from batch_loop_completes [OF assms(2,3), of s] assms(1) b
  have "r = None" "loss_D s1 \<noteq> None" "loss_G s1 \<noteq> None" by simp_all
  then show ?thesis
    using b by (auto simp: epoch_body_def epoch_end_def emit_def Let_def)
qed


text \<open>
  C7. In \<^verbatim>\<open>train\<close>, a batch that is processed (its loop body runs to its end) has
  caused exactly this, in this order: \<open>n_critic\<close> critic steps, each zeroing the critic's
  gradients, drawing its own noise, generating a detached fake batch from it, computing
  the critic loss, backpropagating and stepping the critic's optimizer; then one generator
  step, zeroing the generator's gradients, drawing its own noise, generating a
  gradient-tracked fake batch, computing the generator loss, backpropagating and stepping
  the generator's optimizer; then the two scalars logged. The \<open>n_critic + 1\<close> noise draws
  are new: their numbers follow every draw made before.
\<close>

theorem train_batch_schedule:
  assumes "between_batches a e s" and "train_batch a batch_size s = (None, s')"
  shows "trace s' = trace s
           @ concat (map (critic_step (factor a) batch_size) [draws s..<draws s + nat (n_critic a)])
           @ generator_step batch_size (draws s + nat (n_critic a))
           @ [Add_Scalar ''Loss/Critic'' (draws s + nat (n_critic a) - 1) (writer_step s),
              Add_Scalar ''Loss/Generator'' (draws s + nat (n_critic a)) (writer_step s)]
     \<and> int (length (filter (\<lambda>ev. ev = Optimizer_Step Net_D) (drop (length (trace s)) (trace s'))))
           = n_critic a
     \<and> length (filter (\<lambda>ev. ev = Optimizer_Step Net_G) (drop (length (trace s)) (trace s'))) = 1
     \<and> randn_draws (drop (length (trace s)) (trace s')) = [draws s..<draws s + nat (n_critic a) + 1]
     \<and> (\<forall>k\<in>set (randn_draws (trace s)). k < draws s)"
proof -
  from train_batch_returns [OF assms(2)] between_batches_loss_D [OF assms(1)]
  have pos: "0 < batch_size" "0 < n_critic a" by auto
  from train_batch_ok [OF pos, of s] assms(2)
  have t: "trace s' = trace s
           @ concat (map (critic_step (factor a) batch_size) [draws s..<draws s + nat (n_critic a)])
           @ generator_step batch_size (draws s + nat (n_critic a))
           @ [Add_Scalar ''Loss/Critic'' (draws s + nat (n_critic a) - 1) (writer_step s),
              Add_Scalar ''Loss/Generator'' (draws s + nat (n_critic a)) (writer_step s)]"
    by auto
  have d: "int (length (filter (\<lambda>ev. ev = Optimizer_Step Net_D) (drop (length (trace s)) (trace s'))))
           = n_critic a"
    using pos(2) by (simp add: t count_critic_steps generator_step_def)
  have g: "length (filter (\<lambda>ev. ev = Optimizer_Step Net_G) (drop (length (trace s)) (trace s'))) = 1"
    by (simp add: t no_generator_step_in_critic_steps generator_step_def)
  have r: "randn_draws (drop (length (trace s)) (trace s')) = [draws s..<draws s + nat (n_critic a) + 1]"
    by (simp add: t randn_draws_append randn_draws_critic_steps generator_step_def)
  from t d g r between_batches_draws [OF assms(1)] show ?thesis by blast
qed

theorem train_batch_schedule_witness:
  "between_batches (default_args [2, 3] (Epochs 3) 2) cpu_env
     (before_loop (default_args [2, 3] (Epochs 3) 2) cpu_env)
   \<and> fst (train_batch (default_args [2, 3] (Epochs 3) 2) 2
            (before_loop (default_args [2, 3] (Epochs 3) 2) cpu_env)) = None
   \<and> drop 5 (trace (snd (train_batch (default_args [2, 3] (Epochs 3) 2) 2
            (before_loop (default_args [2, 3] (Epochs 3) 2) cpu_env)))) =
       [Zero_Grad Net_D, Randn 0 2, Generate 0 Detached, Critic_Loss 0 10, Backward Net_D,
        Optimizer_Step Net_D,
        Zero_Grad Net_D, Randn 1 2, Generate 1 Detached, Critic_Loss 1 10, Backward Net_D,
        Optimizer_Step Net_D,
        Zero_Grad Net_G, Randn 2 2, Generate 2 Tracked, Generator_Loss 2, Backward Net_G,
        Optimizer_Step Net_G,
        Add_Scalar ''Loss/Critic'' 1 0, Add_Scalar ''Loss/Generator'' 2 0]"
proof -
  let ?a = "default_args [2, 3] (Epochs 3) 2"
  let ?s = "before_loop ?a cpu_env"
  let ?s' = "snd (train_batch ?a 2 ?s)"
  have b: "between_batches ?a cpu_env ?s" by (rule between_batches.start)
  have n: "n_critic ?a = 2" "factor ?a = 10" by (simp_all add: default_args_def)
  have f: "fst (train_batch ?a 2 ?s) = None"
    using train_batch_ok [of 2 ?a ?s] by (simp add: default_args_def)
  then have r: "train_batch ?a 2 ?s = (None, ?s')" by (simp add: prod_eq_iff)
  have s0: "trace ?s = [Summary_Writer (''runs/wgan_wc_'' @ now cpu_env),
                   To_Device Net_G Cpu, To_Device Net_D Cpu,
                   Adam Net_G (lr ?a) (betas ?a), Adam Net_D (lr ?a) (betas ?a)]"
    "draws ?s = 0" "writer_step ?s = 0"
    by (simp_all add: before_loop_def Let_def cpu_env_def get_device_def)
  have u: "[0..<2] = [0, Suc 0]" by (simp add: upt_conv_Cons)
  from train_batch_schedule [OF b r]
  have "trace ?s' = trace ?s
           @ concat (map (critic_step (factor ?a) 2) [draws ?s..<draws ?s + nat (n_critic ?a)])
           @ generator_step 2 (draws ?s + nat (n_critic ?a))
           @ [Add_Scalar ''Loss/Critic'' (draws ?s + nat (n_critic ?a) - 1) (writer_step ?s),
              Add_Scalar ''Loss/Generator'' (draws ?s + nat (n_critic ?a)) (writer_step ?s)]"
    by blast
  then have "drop 5 (trace ?s') =
       [Zero_Grad Net_D, Randn 0 2, Generate 0 Detached, Critic_Loss 0 10, Backward Net_D,
        Optimizer_Step Net_D,
        Zero_Grad Net_D, Randn 1 2, Generate 1 Detached, Critic_Loss 1 10, Backward Net_D,
        Optimizer_Step Net_D,
        Zero_Grad Net_G, Randn 2 2, Generate 2 Tracked, Generator_Loss 2, Backward Net_G,
        Optimizer_Step Net_G,
        Add_Scalar ''Loss/Critic'' 1 0, Add_Scalar ''Loss/Generator'' 2 0]"
    by (simp add: s0 n u critic_step_def generator_step_def)
  with b f show ?thesis by simp
qed


lemma saves_before_loop: "saves (trace (before_loop a e)) = []"
  by (simp add: before_loop_def Let_def)

lemma epochs_completed_before_loop: "epochs_completed (trace (before_loop a e)) = 0"
  by (simp add: before_loop_def Let_def)

lemma dom_checkpoint_files: "dom (checkpoint_files es) = fst ` set (saves es)"
  by (simp add: checkpoint_files_def dom_map_of_conv_image_fst)

lemma train_cases:
  assumes "train a e = Some (r, s')"
  obtains s0 where "epoch_loop a (now e) (epochs_range_of (epochs a)) (before_loop a e) = Some (r, s0)"
    and "saves (trace s') = saves (trace s0)"
    and "epochs_completed (trace s') = epochs_completed (trace s0)"
    and "r = None \<longrightarrow> trace s' = trace s0 @ [Writer_Close]"
proof (cases "epoch_loop a (now e) (epochs_range_of (epochs a)) (before_loop a e)")
  case None
  with assms show ?thesis by (simp add: train_def)
next
  case (Some res)
  obtain r0 s0 where res: "res = (r0, s0)" by (cases res)
  show ?thesis
  proof (cases r0)
    case None
    with Some res assms have "r = None" "s' = emit [Writer_Close] s0" by (simp_all add: train_def)
    with Some res None that [of s0] show ?thesis
      by (simp add: emit_def saves_append epochs_completed_append)
  next
    case (Some err)
    with \<open>epoch_loop a (now e) (epochs_range_of (epochs a)) (before_loop a e) = Some res\<close> res assms
    have "r = Some err" "s' = s0" by (simp_all add: train_def)
    with \<open>epoch_loop a (now e) (epochs_range_of (epochs a)) (before_loop a e) = Some res\<close> res Some
      that [of s0] show ?thesis by simp
  qed
qed

lemma paths_differ: "gw_path timestamp \<noteq> dw_path timestamp"
  by (simp add: gw_path_def dw_path_def)

lemma epoch_body_paths:
  "fst ` set (saves (trace (snd (epoch_body a timestamp epoch s))))
     \<subseteq> fst ` set (saves (trace s))
         \<union> {gw_path timestamp, dw_path timestamp}"
proof (cases "fst (batch_loop a (loader a) s) = None")
  case True
  then have "saves (trace (snd (epoch_body a timestamp epoch s))) =
     saves (trace s) @ [(gw_path timestamp, Net_G, epoch), (dw_path timestamp, Net_D, epoch)]"
    by (simp add: epoch_body_saves)
  then show ?thesis by auto
next
  case False
  then have "saves (trace (snd (epoch_body a timestamp epoch s))) = saves (trace s)"
    by (simp add: epoch_body_saves)
  then show ?thesis by auto
qed

lemma epochs_prefix_paths:
  "fst ` set (saves (trace (epochs_prefix k a timestamp it s)))
     \<subseteq> fst ` set (saves (trace s))
         \<union> {gw_path timestamp, dw_path timestamp}"
proof (induction k arbitrary: it s)
  case 0
  show ?case by auto
next
  case (Suc k)
  show ?case
  proof (cases "next_epoch it")
    case None
    then show ?thesis by auto
  next
    case (Some nx)
    obtain epoch it' where nx: "nx = (epoch, it')" by (cases nx)
    obtain o1 s1 where b: "epoch_body a timestamp epoch s = (o1, s1)"
      by (cases "epoch_body a timestamp epoch s")
    have p1: "fst ` set (saves (trace s1))
       \<subseteq> fst ` set (saves (trace s))
         \<union> {gw_path timestamp, dw_path timestamp}"
      using epoch_body_paths [of a timestamp epoch s] b by simp
    show ?thesis
    proof (cases o1)
      case None
      with Some nx b have "epochs_prefix (Suc k) a timestamp it s = epochs_prefix k a timestamp it' s1"
        by simp
      with Suc.IH [of it' s1] p1 show ?thesis by auto
    next
      case (Some err)
      with \<open>next_epoch it = Some nx\<close> nx b have "epochs_prefix (Suc k) a timestamp it s = s1" by simp
      with p1 show ?thesis by simp
    qed
  qed
qed

lemma epoch_loop_prefix:
  assumes "epoch_loop a timestamp it s = Some r"
  shows "\<exists>k. epochs_prefix k a timestamp it s = snd r"
proof (rule epoch_loop.raw_induct
    [where P = "\<lambda>a ts it s r. \<exists>k. epochs_prefix k a ts it s = snd r", OF _ assms], goal_cases)
  case (1 loop a timestamp it s r)
  show ?case
  proof (cases "next_epoch it")
    case None
    with 1(2) have "epochs_prefix 0 a timestamp it s = snd r" by auto
    then show ?thesis ..
  next
    case (Some nx)
    obtain epoch it' where nx: "nx = (epoch, it')" by (cases nx)
    obtain o1 s1 where b: "epoch_body a timestamp epoch s = (o1, s1)"
      by (cases "epoch_body a timestamp epoch s")
    show ?thesis
    proof (cases o1)
      case None
      with 1(2) Some nx b have "loop a timestamp it' s1 = Some r" by simp
      from 1(1) [OF this] obtain k where "epochs_prefix k a timestamp it' s1 = snd r" ..
      with Some nx b None have "epochs_prefix (Suc k) a timestamp it s = snd r" by simp
      then show ?thesis ..
    next
      case (Some err)
      with 1(2) \<open>next_epoch it = Some nx\<close> nx b have "r = (Some err, s1)" by simp
      with \<open>next_epoch it = Some nx\<close> nx b Some have "epochs_prefix (Suc 0) a timestamp it s = snd r"
        by simp
      then show ?thesis ..
    qed
  qed
qed

lemma epochs_prefix_Count:
  assumes "\<And>epoch s. fst (epoch_body a timestamp epoch s) = None"
  shows "epochs_completed (trace (epochs_prefix k a timestamp (Count_it i) s))
           = epochs_completed (trace s) + k
       \<and> checkpoint_files (trace (epochs_prefix k a timestamp (Count_it i) s)) =
           (if k = 0 then checkpoint_files (trace s)
            else (checkpoint_files (trace s))
                   (gw_path timestamp \<mapsto> (Net_G, i + int k - 1),
                    dw_path timestamp \<mapsto> (Net_D, i + int k - 1)))"
proof (induction k arbitrary: i s)
  case 0
  show ?case by simp
next
  case (Suc k)
  obtain o1 s1 where b: "epoch_body a timestamp i s = (o1, s1)"
    by (cases "epoch_body a timestamp i s")
  with assms [of i s] have o1: "o1 = None" by simp
  have c1: "epochs_completed (trace s1) = epochs_completed (trace s) + 1"
    using epoch_body_completed [of a timestamp i s] b o1 by simp
  have f1: "checkpoint_files (trace s1) =
     (checkpoint_files (trace s))
       (gw_path timestamp \<mapsto> (Net_G, i),
        dw_path timestamp \<mapsto> (Net_D, i))"
    using checkpoint_files_epoch_body [of a timestamp i s s1] b o1
    by simp
  have step: "epochs_prefix (Suc k) a timestamp (Count_it i) s
                = epochs_prefix k a timestamp (Count_it (i + 1)) s1"
    using b o1 by simp
  show ?case
  proof (cases "k = 0")
    case True
    with step c1 f1 show ?thesis by simp
  next
    case False
    with Suc.IH [of "i + 1" s1] step c1 f1 show ?thesis
      by (simp add: overwrite_twice add.commute add.left_commute)
  qed
qed

lemma epochs_prefix_Range:
  assumes "\<And>epoch s. fst (epoch_body a timestamp epoch s) = None" and "int k \<le> n - i"
  shows "epochs_completed (trace (epochs_prefix k a timestamp (Range_it i n) s))
           = epochs_completed (trace s) + k
       \<and> checkpoint_files (trace (epochs_prefix k a timestamp (Range_it i n) s)) =
           (if k = 0 then checkpoint_files (trace s)
            else (checkpoint_files (trace s))
                   (gw_path timestamp \<mapsto> (Net_G, i + int k - 1),
                    dw_path timestamp \<mapsto> (Net_D, i + int k - 1)))"
  using assms(2)
proof (induction k arbitrary: i s)
  case 0
  show ?case by simp
next
  case (Suc k)
  then have lt: "i < n" and le: "int k \<le> n - (i + 1)" by simp_all
  obtain o1 s1 where b: "epoch_body a timestamp i s = (o1, s1)"
    by (cases "epoch_body a timestamp i s")
  with assms(1) [of i s] have o1: "o1 = None" by simp
  have c1: "epochs_completed (trace s1) = epochs_completed (trace s) + 1"
    using epoch_body_completed [of a timestamp i s] b o1 by simp
  have f1: "checkpoint_files (trace s1) =
     (checkpoint_files (trace s))
       (gw_path timestamp \<mapsto> (Net_G, i),
        dw_path timestamp \<mapsto> (Net_D, i))"
    using checkpoint_files_epoch_body [of a timestamp i s s1] b o1
    by simp
  have step: "epochs_prefix (Suc k) a timestamp (Range_it i n) s
                = epochs_prefix k a timestamp (Range_it (i + 1) n) s1"
    using b o1 lt by simp
  show ?case
  proof (cases "k = 0")
    case True
    with step c1 f1 show ?thesis by simp
  next
    case False
    with Suc.IH [OF le, of s1] step c1 f1 show ?thesis
      by (simp add: overwrite_twice add.commute add.left_commute)
  qed
qed

lemma path_literals:
  "gw_path timestamp = ''./snapshots/gw_'' @ timestamp @ ''.pth''"
  "dw_path timestamp = ''./snapshots/dw_'' @ timestamp @ ''.pth''"
  by (simp_all add: gw_path_def dw_path_def)

lemma epochs_prefix_before_loop_paths:
  "dom (checkpoint_files (trace (epochs_prefix k a (now e) it (before_loop a e))))
     \<subseteq> {gw_path (now e), dw_path (now e)}"
  using epochs_prefix_paths [of k a "now e" it "before_loop a e"]
  by (simp add: dom_checkpoint_files saves_before_loop)

lemma epochs_prefix_files:
  assumes "\<forall>epoch s. fst (epoch_body a (now e) epoch s) = None" and "0 < k"
    and "epochs a = Inf_epochs \<or> (epochs a = Epochs N \<and> int k \<le> N)"
  shows "checkpoint_files
           (trace (epochs_prefix k a (now e) (epochs_range_of (epochs a)) (before_loop a e))) =
         [gw_path (now e) \<mapsto> (Net_G, int k - 1), dw_path (now e) \<mapsto> (Net_D, int k - 1)]"
proof -
  from assms(1) have c: "\<And>epoch s. fst (epoch_body a (now e) epoch s) = None" by simp
  have empty: "checkpoint_files (trace (before_loop a e)) = Map.empty"
    by (simp add: checkpoint_files_def saves_before_loop)
  from assms(3) show ?thesis
  proof
    assume "epochs a = Inf_epochs"
    then show ?thesis
      using epochs_prefix_Count [OF c, of k 0 "before_loop a e"] assms(2) empty
      by (simp add: epochs_range_of_def)
  next
    assume "epochs a = Epochs N \<and> int k \<le> N"
    then show ?thesis
      using epochs_prefix_Range [OF c, of k N 0 "before_loop a e"] assms(2) empty
      by (simp add: epochs_range_of_def)
  qed
qed

text \<open>
  C8. \<^verbatim>\<open>train\<close> reads the timestamp once. The end of every epoch writes exactly the two
  files \<^verbatim>\<open>./snapshots/gw_<timestamp>.pth\<close> and \<^verbatim>\<open>./snapshots/dw_<timestamp>.pth\<close>,
  which differ, replacing what they held; the batches write no checkpoint. So at every
  moment of a run, whether it ends or goes on for ever (after at most \<open>k\<close> turns of the
  loop over the epochs, for every \<open>k\<close>), there are checkpoints under no other path, and
  after \<open>k > 0\<close> completed epochs the two files hold the parameters of the last one,
  \<open>k - 1\<close>. A run that ends is one of these moments.
\<close>

theorem checkpoint_paths:
  "saves (trace (snd (epoch_end timestamp epoch s))) =
     saves (trace s) @ [(''./snapshots/gw_'' @ timestamp @ ''.pth'', Net_G, epoch),
                        (''./snapshots/dw_'' @ timestamp @ ''.pth'', Net_D, epoch)]
   \<and> ''./snapshots/gw_'' @ timestamp @ ''.pth'' \<noteq> ''./snapshots/dw_'' @ timestamp @ ''.pth''
   \<and> checkpoint_files (trace (snd (epoch_end timestamp epoch s))) =
       (checkpoint_files (trace s))
         (''./snapshots/gw_'' @ timestamp @ ''.pth'' \<mapsto> (Net_G, epoch),
          ''./snapshots/dw_'' @ timestamp @ ''.pth'' \<mapsto> (Net_D, epoch))
   \<and> checkpoint_files (trace (snd (batch_loop a bs s))) = checkpoint_files (trace s)
   \<and> dom (checkpoint_files
          (trace (epochs_prefix k a (now e) (epochs_range_of (epochs a)) (before_loop a e))))
       \<subseteq> {''./snapshots/gw_'' @ now e @ ''.pth'', ''./snapshots/dw_'' @ now e @ ''.pth''}
   \<and> ((\<forall>epoch s. fst (epoch_body a (now e) epoch s) = None) \<longrightarrow> 0 < k \<longrightarrow>
        (epochs a = Inf_epochs \<or> (epochs a = Epochs N \<and> int k \<le> N)) \<longrightarrow>
        checkpoint_files
          (trace (epochs_prefix k a (now e) (epochs_range_of (epochs a)) (before_loop a e))) =
          [''./snapshots/gw_'' @ now e @ ''.pth'' \<mapsto> (Net_G, int k - 1),
           ''./snapshots/dw_'' @ now e @ ''.pth'' \<mapsto> (Net_D, int k - 1)])
   \<and> (epoch_loop a (now e) (epochs_range_of (epochs a)) (before_loop a e) = Some (r, s') \<longrightarrow>
        (\<exists>j. epochs_prefix j a (now e) (epochs_range_of (epochs a)) (before_loop a e) = s'))
   \<and> (train a e = Some (r, s') \<longrightarrow>
        dom (checkpoint_files (trace s'))
          \<subseteq> {''./snapshots/gw_'' @ now e @ ''.pth'', ''./snapshots/dw_'' @ now e @ ''.pth''})
   \<and> (train a e = Some (None, s') \<longrightarrow> epochs a = Epochs N \<longrightarrow> 0 < N \<longrightarrow>
        checkpoint_files (trace s') =
          [''./snapshots/gw_'' @ now e @ ''.pth'' \<mapsto> (Net_G, N - 1),
           ''./snapshots/dw_'' @ now e @ ''.pth'' \<mapsto> (Net_D, N - 1)])"
proof (intro conjI impI)
  show "saves (trace (snd (epoch_end timestamp epoch s))) =
     saves (trace s) @ [(''./snapshots/gw_'' @ timestamp @ ''.pth'', Net_G, epoch),
                        (''./snapshots/dw_'' @ timestamp @ ''.pth'', Net_D, epoch)]"
    using epoch_end_saves [of timestamp epoch s] by (simp only: path_literals)
  show "''./snapshots/gw_'' @ timestamp @ ''.pth'' \<noteq> ''./snapshots/dw_'' @ timestamp @ ''.pth''"
    by simp
  show "checkpoint_files (trace (snd (epoch_end timestamp epoch s))) =
       (checkpoint_files (trace s))
         (''./snapshots/gw_'' @ timestamp @ ''.pth'' \<mapsto> (Net_G, epoch),
          ''./snapshots/dw_'' @ timestamp @ ''.pth'' \<mapsto> (Net_D, epoch))"
    using checkpoint_files_epoch_end [of timestamp epoch s] by (simp only: path_literals)
  show "checkpoint_files (trace (snd (batch_loop a bs s))) = checkpoint_files (trace s)"
    by (rule checkpoint_files_batch_loop)
  show "dom (checkpoint_files
          (trace (epochs_prefix k a (now e) (epochs_range_of (epochs a)) (before_loop a e))))
       \<subseteq> {''./snapshots/gw_'' @ now e @ ''.pth'', ''./snapshots/dw_'' @ now e @ ''.pth''}"
    using epochs_prefix_before_loop_paths [of k a e "epochs_range_of (epochs a)"]
    by (simp only: path_literals)
next
  assume "\<forall>epoch s. fst (epoch_body a (now e) epoch s) = None" and "0 < k"
    and "epochs a = Inf_epochs \<or> (epochs a = Epochs N \<and> int k \<le> N)"
  from epochs_prefix_files [OF this]
  show "checkpoint_files
          (trace (epochs_prefix k a (now e) (epochs_range_of (epochs a)) (before_loop a e))) =
          [''./snapshots/gw_'' @ now e @ ''.pth'' \<mapsto> (Net_G, int k - 1),
           ''./snapshots/dw_'' @ now e @ ''.pth'' \<mapsto> (Net_D, int k - 1)]"
    by (simp only: path_literals)
next
  assume "epoch_loop a (now e) (epochs_range_of (epochs a)) (before_loop a e) = Some (r, s')"
  from epoch_loop_prefix [OF this]
  show "\<exists>j. epochs_prefix j a (now e) (epochs_range_of (epochs a)) (before_loop a e) = s'"
    by simp
next
  assume t: "train a e = Some (r, s')"
  from t obtain s0 where l: "epoch_loop a (now e) (epochs_range_of (epochs a)) (before_loop a e) = Some (r, s0)"
    and sv: "saves (trace s') = saves (trace s0)"
    by (rule train_cases)
  from epoch_loop_paths [OF l] sv
  have "dom (checkpoint_files (trace s')) \<subseteq> {gw_path (now e), dw_path (now e)}"
    by (simp add: dom_checkpoint_files saves_before_loop)
  then show "dom (checkpoint_files (trace s'))
          \<subseteq> {''./snapshots/gw_'' @ now e @ ''.pth'', ''./snapshots/dw_'' @ now e @ ''.pth''}"
    by (simp only: path_literals)
next
  assume t: "train a e = Some (None, s')" and ep: "epochs a = Epochs N" and n: "0 < N"
  from t obtain s0 where l: "epoch_loop a (now e) (epochs_range_of (epochs a)) (before_loop a e) = Some (None, s0)"
    and sv: "saves (trace s') = saves (trace s0)"
    by (rule train_cases)
  from l ep have "epoch_loop a (now e) (Range_it 0 N) (before_loop a e) = Some (None, s0)"
    by (simp add: epochs_range_of_def)
  from epoch_loop_Range_result [OF this] n
  have "checkpoint_files (trace s0) =
      (checkpoint_files (trace (before_loop a e)))
         (gw_path (now e) \<mapsto> (Net_G, N - 1), dw_path (now e) \<mapsto> (Net_D, N - 1))"
    by simp
  then have "checkpoint_files (trace s') =
          [gw_path (now e) \<mapsto> (Net_G, N - 1), dw_path (now e) \<mapsto> (Net_D, N - 1)]"
    using sv by (simp add: checkpoint_files_def saves_before_loop)
  then show "checkpoint_files (trace s') =
          [''./snapshots/gw_'' @ now e @ ''.pth'' \<mapsto> (Net_G, N - 1),
           ''./snapshots/dw_'' @ now e @ ''.pth'' \<mapsto> (Net_D, N - 1)]"
    by (simp only: path_literals)
qed

lemma train_bounded_completes:
  assumes "\<forall>epoch s. fst (epoch_body a (now e) epoch s) = None" and "epochs a = Epochs N"
  shows "\<exists>s'. train a e = Some (None, s') \<and> epochs_completed (trace s') = nat N
            \<and> last (trace s') = Writer_Close"
proof -
  from assms(1) have "\<And>epoch s. fst (epoch_body a (now e) epoch s) = None" by simp
  from epoch_loop_Range_completes [of a "now e" 0 N "before_loop a e", OF this]
  obtain s0 where l: "epoch_loop a (now e) (Range_it 0 N) (before_loop a e) = Some (None, s0)" by blast
  from epoch_loop_Range_result [OF l]
  have n: "epochs_completed (trace s0) = nat N" by (simp add: epochs_completed_before_loop)
  have t: "train a e = Some (None, emit [Writer_Close] s0)"
    using l assms(2) by (simp add: train_def epochs_range_of_def)
  show ?thesis
    using t n by (simp add: emit_def epochs_completed_append)
qed

text \<open>
  C9, amended. If every epoch's body runs to its end, \<^verbatim>\<open>train\<close> with an integer \<open>N\<close>
  completes \<open>N\<close> epochs when \<open>N\<close> is not negative, and none when it is (that is, \<open>nat N\<close>
  epochs), then closes the writer and returns; with an integer it returns or raises in any
  case. With \<^verbatim>\<open>"inf"\<close> it never returns: it runs for ever if every epoch's body runs
  to its end, and otherwise ends only by an exception.
\<close>

theorem train_epochs:
  "((\<forall>epoch s. fst (epoch_body a (now e) epoch s) = None) \<longrightarrow> epochs a = Epochs N \<longrightarrow>
      (\<exists>s'. train a e = Some (None, s') \<and> epochs_completed (trace s') = nat N
            \<and> last (trace s') = Writer_Close))
   \<and> (epochs a = Epochs N \<longrightarrow> train a e \<noteq> None)
   \<and> ((\<forall>epoch s. fst (epoch_body a (now e) epoch s) = None) \<longrightarrow> epochs a = Inf_epochs \<longrightarrow>
        train a e = None)
   \<and> (epochs a = Inf_epochs \<longrightarrow> (\<forall>s'. train a e \<noteq> Some (None, s')))"
proof (intro conjI impI allI)
  assume c: "\<forall>epoch s. fst (epoch_body a (now e) epoch s) = None" and ep: "epochs a = Epochs N"
  then show "\<exists>s'. train a e = Some (None, s') \<and> epochs_completed (trace s') = nat N
            \<and> last (trace s') = Writer_Close"
    by (rule train_bounded_completes)
next
  assume ep: "epochs a = Epochs N"
  from epoch_loop_Range_terminates [of a "now e" 0 N "before_loop a e"]
  obtain res where "epoch_loop a (now e) (Range_it 0 N) (before_loop a e) = Some res" by blast
  then show "train a e \<noteq> None"
    using ep by (cases res) (simp add: train_def epochs_range_of_def split: option.splits)
next
  assume c: "\<forall>epoch s. fst (epoch_body a (now e) epoch s) = None" and ep: "epochs a = Inf_epochs"
  have "epoch_loop a (now e) (Count_it 0) (before_loop a e) = None"
  proof (cases "epoch_loop a (now e) (Count_it 0) (before_loop a e)")
    case None
    then show ?thesis .
  next
    case (Some res)
    from epoch_loop_Count_raises [OF this] c have False by auto
    then show ?thesis ..
  qed
  then show "train a e = None" using ep by (simp add: train_def epochs_range_of_def)
next
  fix s'
  assume ep: "epochs a = Inf_epochs"
  show "train a e \<noteq> Some (None, s')"
  proof
    assume "train a e = Some (None, s')"
    then obtain s0 where "epoch_loop a (now e) (epochs_range_of (epochs a)) (before_loop a e) = Some (None, s0)"
      by (rule train_cases)
    with ep have "epoch_loop a (now e) (Count_it 0) (before_loop a e) = Some (None, s0)"
      by (simp add: epochs_range_of_def)
    from epoch_loop_Count_raises [OF this] show False by simp
  qed
qed


lemma default_args_complete:
  "\<forall>epoch s. fst (epoch_body (default_args [2, 3] ep 2) timestamp epoch s) = None"
  by (intro allI epoch_body_completes) (simp_all add: default_args_def)

theorem checkpoint_paths_witness:
  "(\<forall>epoch s. fst (epoch_body (default_args [2, 3] Inf_epochs 2) (now cpu_env) epoch s) = None)
   \<and> checkpoint_files
        (trace (epochs_prefix 3 (default_args [2, 3] Inf_epochs 2) (now cpu_env)
                  (epochs_range_of (epochs (default_args [2, 3] Inf_epochs 2)))
                  (before_loop (default_args [2, 3] Inf_epochs 2) cpu_env))) =
        [''./snapshots/gw_20240102030405.pth'' \<mapsto> (Net_G, 2),
         ''./snapshots/dw_20240102030405.pth'' \<mapsto> (Net_D, 2)]
   \<and> (\<exists>s'. train (default_args [2, 3] (Epochs 2) 2) cpu_env = Some (None, s')
        \<and> checkpoint_files (trace s') =
            [''./snapshots/gw_20240102030405.pth'' \<mapsto> (Net_G, 1),
             ''./snapshots/dw_20240102030405.pth'' \<mapsto> (Net_D, 1)])"
proof -
  let ?a = "default_args [2, 3] (Epochs 2) 2"
  let ?b = "default_args [2, 3] Inf_epochs 2"
  have cb: "\<forall>epoch s. fst (epoch_body ?b (now cpu_env) epoch s) = None"
    by (rule default_args_complete)
  have eb: "epochs ?b = Inf_epochs" and ea: "epochs ?a = Epochs 2" by (simp_all add: default_args_def)
  have ts: "now cpu_env = ''20240102030405''" by (simp add: cpu_env_def)
  have k: "(0::nat) < 3" by simp
  from checkpoint_paths [of "now cpu_env" 0 "before_loop ?b cpu_env" ?b "[]" 3 cpu_env 0 None
      "before_loop ?b cpu_env"] cb eb k
  have 1: "checkpoint_files
        (trace (epochs_prefix 3 ?b (now cpu_env) (epochs_range_of (epochs ?b)) (before_loop ?b cpu_env))) =
        [''./snapshots/gw_'' @ now cpu_env @ ''.pth'' \<mapsto> (Net_G, int 3 - 1),
         ''./snapshots/dw_'' @ now cpu_env @ ''.pth'' \<mapsto> (Net_D, int 3 - 1)]"
    by blast
  from train_bounded_completes [OF default_args_complete ea, of cpu_env]
  obtain s' where t: "train ?a cpu_env = Some (None, s')" by blast
  have n: "(0::int) < 2" by simp
  from checkpoint_paths [of "now cpu_env" 0 s' ?a "[]" 0 cpu_env 2 None s'] t ea n
  have 2: "checkpoint_files (trace s') =
          [''./snapshots/gw_'' @ now cpu_env @ ''.pth'' \<mapsto> (Net_G, 2 - 1),
           ''./snapshots/dw_'' @ now cpu_env @ ''.pth'' \<mapsto> (Net_D, 2 - 1)]"
    by blast
  from 1 have p1: "checkpoint_files
        (trace (epochs_prefix 3 ?b (now cpu_env) (epochs_range_of (epochs ?b)) (before_loop ?b cpu_env))) =
        [''./snapshots/gw_20240102030405.pth'' \<mapsto> (Net_G, 2),
         ''./snapshots/dw_20240102030405.pth'' \<mapsto> (Net_D, 2)]"
    by (simp add: ts)
  from 2 have p2: "checkpoint_files (trace s') =
            [''./snapshots/gw_20240102030405.pth'' \<mapsto> (Net_G, 1),
             ''./snapshots/dw_20240102030405.pth'' \<mapsto> (Net_D, 1)]"
    by (simp add: ts)
  from cb p1 t p2 show ?thesis by blast
qed

text \<open>
  The integer \<open>-1\<close> against C9 as stated: \<^verbatim>\<open>range(-1)\<close> is empty, the run returns at
  once and has completed 0 epochs, not \<open>-1\<close>.
\<close>

theorem train_epochs_counterexample:
  "train (default_args [2, 3] (Epochs (- 1)) 2) cpu_env =
     Some (None, emit [Writer_Close] (before_loop (default_args [2, 3] (Epochs (- 1)) 2) cpu_env))
   \<and> epochs_completed
        (trace (emit [Writer_Close] (before_loop (default_args [2, 3] (Epochs (- 1)) 2) cpu_env))) = 0
   \<and> int (epochs_completed
        (trace (emit [Writer_Close] (before_loop (default_args [2, 3] (Epochs (- 1)) 2) cpu_env))))
       \<noteq> - 1"
proof -
  let ?a = "default_args [2, 3] (Epochs (- 1)) 2"
  have ep: "epochs ?a = Epochs (- 1)" by (simp add: default_args_def)
  have "train ?a cpu_env = Some (None, emit [Writer_Close] (before_loop ?a cpu_env))"
    by (simp add: train_def ep epochs_range_of_def epoch_loop_Range)
  moreover have "epochs_completed (trace (emit [Writer_Close] (before_loop ?a cpu_env))) = 0"
    by (simp add: emit_def epochs_completed_append epochs_completed_before_loop)
  ultimately show ?thesis by simp
qed

theorem train_epochs_witness:
  "(\<forall>epoch s. fst (epoch_body (default_args [2, 3] (Epochs 2) 2) (now cpu_env) epoch s) = None)
   \<and> (\<exists>s'. train (default_args [2, 3] (Epochs 2) 2) cpu_env = Some (None, s')
          \<and> epochs_completed (trace s') = 2)
   \<and> (\<forall>epoch s. fst (epoch_body (default_args [2, 3] Inf_epochs 2) (now cpu_env) epoch s) = None)
   \<and> train (default_args [2, 3] Inf_epochs 2) cpu_env = None"
proof -
  let ?a = "default_args [2, 3] (Epochs 2) 2"
  let ?b = "default_args [2, 3] Inf_epochs 2"
  have ca: "\<forall>epoch s. fst (epoch_body ?a (now cpu_env) epoch s) = None"
    and cb: "\<forall>epoch s. fst (epoch_body ?b (now cpu_env) epoch s) = None"
    by (rule default_args_complete)+
  have ea: "epochs ?a = Epochs 2" and eb: "epochs ?b = Inf_epochs" by (simp_all add: default_args_def)
  from train_epochs [of ?a cpu_env 2] ca ea
  have "\<exists>s'. train ?a cpu_env = Some (None, s') \<and> epochs_completed (trace s') = nat 2
            \<and> last (trace s') = Writer_Close"
    by blast
  then have 1: "\<exists>s'. train ?a cpu_env = Some (None, s') \<and> epochs_completed (trace s') = 2"
    by auto
  from train_epochs [of ?b cpu_env 0] cb eb have 2: "train ?b cpu_env = None" by blast
  from ca cb 1 2 show ?thesis by blast
qed

end
